theory Spec2Isabelle
  imports Complex_Main
begin

section \<open>Data model\<close>

text \<open>
  The persisted record of \<^verbatim>\<open>database/models.py\<close> (class \<^verbatim>\<open>Torrent\<close>). The column
  \<^verbatim>\<open>size\<close> is named \<open>size_bytes\<close> here. The surrogate key \<^verbatim>\<open>id\<close> (autoincrement) is
  the position of the row in the store: a store is the list of rows in rowid order.
  The column \<^verbatim>\<open>hash\<close> is declared unique, so a store of the program never holds two rows
  with one hash (\<open>distinct (map hash s)\<close>). Timestamps are integers.
\<close>

record torrent =
  hash :: string
  name :: string
  magnet_uri :: "string option"
  alldebrid_id :: "int option"
  download_link :: "string option"
  size_bytes :: int
  downloaded :: int
  uploaded :: int
  progress :: real
  dlspeed :: int
  upspeed :: int
  state :: string
  error_message :: "string option"
  category :: "string option"
  save_path :: string
  aria2_gid :: "string option"
  added_on :: int
  completion_on :: "int option"
  ratio :: real
  eta :: int

type_synonym store = "torrent list"

text \<open>The settings of \<^verbatim>\<open>utils/config.py\<close> that the modelled code reads, with their defaults.\<close>

record settings =
  download_path :: string
  simultaneous_small_files :: int
  size_threshold_gb :: int

definition default_settings :: settings where
  "default_settings =
     \<lparr>download_path = ''/downloads'', simultaneous_small_files = 3, size_threshold_gb = 20\<rparr>"

text \<open>Exceptions, by the classes the handlers of the source tell apart.\<close>

datatype exn =
    TimeoutError string
  | ValueError string
  | HTTPError string
  | IntegrityError string
  | OtherError string

fun str_of :: "exn \<Rightarrow> string" where
  "str_of (TimeoutError m) = m"
| "str_of (ValueError m) = m"
| "str_of (HTTPError m) = m"
| "str_of (IntegrityError m) = m"
| "str_of (OtherError m) = m"

section \<open>Record store (\<^verbatim>\<open>database/crud.py\<close>)\<close>

definition get_torrent_by_hash :: "string \<Rightarrow> store \<Rightarrow> torrent option" where
  "get_torrent_by_hash h s = find (\<lambda>t. hash t = h) s"

definition get_torrents_by_state :: "string \<Rightarrow> store \<Rightarrow> torrent list" where
  "get_torrents_by_state st s = filter (\<lambda>t. state t = st) s"

text \<open>
  \<^verbatim>\<open>create_torrent\<close>: the row gets the column defaults; the unique index on \<^verbatim>\<open>hash\<close>
  raises \<^verbatim>\<open>IntegrityError\<close> on a duplicate. \<open>now\<close> is what \<^verbatim>\<open>datetime.utcnow\<close> returns.
\<close>

definition create_torrent ::
  "settings \<Rightarrow> string \<Rightarrow> string \<Rightarrow> string \<Rightarrow> string option \<Rightarrow> string option \<Rightarrow> int
     \<Rightarrow> store \<Rightarrow> exn + store" where
  "create_torrent cfg h nm uri cat sp now s =
     (let save = (case sp of None \<Rightarrow> download_path cfg @ ''/complete''
                   | Some p \<Rightarrow> if p = [] then download_path cfg @ ''/complete'' else p)
      in if h \<in> set (map hash s) then Inl (IntegrityError h)
         else Inr (s @ [\<lparr>hash = h, name = nm, magnet_uri = Some uri, alldebrid_id = None,
                download_link = None, size_bytes = 0, downloaded = 0, uploaded = 0,
                progress = 0, dlspeed = 0, upspeed = 0, state = ''queued'',
                error_message = None, category = cat, save_path = save, aria2_gid = None,
                added_on = now, completion_on = None, ratio = 0, eta = 0\<rparr>]))"

text \<open>
  \<^verbatim>\<open>update_torrent\<close>: the keyword arguments are a function on the row; a hash with no
  row leaves the store as it is. The hash column is unique, so at most one row matches.
\<close>

definition update_torrent :: "string \<Rightarrow> (torrent \<Rightarrow> torrent) \<Rightarrow> store \<Rightarrow> store" where
  "update_torrent h upd s = map (\<lambda>t. if hash t = h then upd t else t) s"

definition delete_torrent :: "string \<Rightarrow> store \<Rightarrow> store" where
  "delete_torrent h s = filter (\<lambda>t. hash t \<noteq> h) s"

definition mark_torrent_completed :: "int \<Rightarrow> string \<Rightarrow> store \<Rightarrow> store" where
  "mark_torrent_completed now h s =
     update_torrent h
       (\<lambda>t. t\<lparr>state := ''completed'', progress := 1, completion_on := Some now, dlspeed := 0\<rparr>) s"

definition mark_torrent_error :: "string \<Rightarrow> string option \<Rightarrow> store \<Rightarrow> store" where
  "mark_torrent_error h msg s =
     update_torrent h (\<lambda>t. t\<lparr>state := ''error'', error_message := msg, dlspeed := 0\<rparr>) s"

section \<open>Admission policy (\<^verbatim>\<open>DownloadQueue._can_start_download\<close>)\<close>

definition can_start_download :: "settings \<Rightarrow> string \<Rightarrow> torrent list \<Rightarrow> bool" where
  "can_start_download cfg storage_type downloading =
     (if downloading = [] then True
      else if storage_type = ''hdd'' then
        (let large_files =
               filter (\<lambda>t. size_bytes t > size_threshold_gb cfg * 1024 ^ 3) downloading
         in if large_files \<noteq> [] then False
            else int (length downloading) < simultaneous_small_files cfg)
      else int (length downloading) < 5)"

section \<open>Resolver client (\<^verbatim>\<open>alldebrid/client.py\<close>)\<close>

text \<open>
  The JSON body of a response, by the keys \<^verbatim>\<open>_request\<close> reads: \<^verbatim>\<open>status\<close>, the message
  under \<^verbatim>\<open>error\<close>, and \<^verbatim>\<open>data\<close>. \<open>'j\<close> is the type of JSON values.
\<close>

record 'j api_body =
  body_status :: "string option"
  body_error_message :: "string option"
  body_data :: "'j option"

text \<open>
  What the HTTP layer does at one attempt: \<open>HttpFails\<close> is an \<^verbatim>\<open>httpx.HTTPError\<close> raised
  by the call or by \<^verbatim>\<open>raise_for_status\<close>, \<open>OtherFails\<close> any other exception (a body that
  is not JSON), \<open>Responds\<close> a decoded body.
\<close>

datatype 'j http_outcome = HttpFails string | OtherFails exn | Responds "'j api_body"

datatype 'j payload = Data 'j | Whole "'j api_body"

record 'j request_result =
  outcome :: "exn + 'j payload"
  sleeps :: "nat list"
  calls :: nat

text \<open>The body of the \<^verbatim>\<open>try\<close> block of \<^verbatim>\<open>_request\<close> for a supported method.\<close>

definition try_once :: "'j http_outcome \<Rightarrow> exn + 'j payload" where
  "try_once r =
     (case r of
        HttpFails m \<Rightarrow> Inl (HTTPError m)
      | OtherFails e \<Rightarrow> Inl e
      | Responds b \<Rightarrow>
          if body_status b = Some ''error''
          then Inl (HTTPError (case body_error_message b of
                                 None \<Rightarrow> ''Unknown error'' | Some m \<Rightarrow> m))
          else Inr (case body_data b of Some d \<Rightarrow> Data d | None \<Rightarrow> Whole b))"

text \<open>
  The loop \<^verbatim>\<open>for attempt in range(retries)\<close>. \<open>http k\<close> is the outcome of the HTTP call
  of attempt \<open>k\<close>; \<open>slept\<close> collects the arguments of \<^verbatim>\<open>asyncio.sleep\<close> in order; \<open>calls\<close>
  counts the HTTP calls made. The handler \<^verbatim>\<open>except httpx.HTTPError\<close> encloses the whole
  \<^verbatim>\<open>try\<close> body, the check of the \<^verbatim>\<open>status\<close> field included.
\<close>

function request_loop ::
  "string \<Rightarrow> (nat \<Rightarrow> 'j http_outcome) \<Rightarrow> int \<Rightarrow> nat \<Rightarrow> nat list \<Rightarrow> 'j request_result" where
  "request_loop http_method http retries attempt slept =
     (if int attempt < retries then
        (if http_method \<noteq> ''GET'' \<and> http_method \<noteq> ''POST'' then
           \<lparr>outcome = Inl (ValueError (''Unsupported method: '' @ http_method)),
            sleeps = slept, calls = attempt\<rparr>
         else
           (case try_once (http attempt) of
              Inr r \<Rightarrow> \<lparr>outcome = Inr r, sleeps = slept, calls = Suc attempt\<rparr>
            | Inl (HTTPError m) \<Rightarrow>
                if int attempt = retries - 1
                then \<lparr>outcome = Inl (HTTPError m), sleeps = slept, calls = Suc attempt\<rparr>
                else request_loop http_method http retries (Suc attempt) (slept @ [2 ^ attempt])
            | Inl e \<Rightarrow> \<lparr>outcome = Inl e, sleeps = slept, calls = Suc attempt\<rparr>))
      else \<lparr>outcome = Inl (HTTPError ''All retries failed''), sleeps = slept, calls = attempt\<rparr>)"
  by pat_completeness auto
termination
  by (relation "measure (\<lambda>(http_method, http, retries, attempt, slept). nat (retries - int attempt))")
    auto

declare request_loop.simps [simp del]

definition request :: "string \<Rightarrow> (nat \<Rightarrow> 'j http_outcome) \<Rightarrow> int \<Rightarrow> 'j request_result" where
  "request http_method http retries = request_loop http_method http retries 0 []"

text \<open>
  The message of the \<^verbatim>\<open>httpx.HTTPError\<close> that an attempt ends in, if it ends in one: a
  transport failure, or a body whose \<^verbatim>\<open>status\<close> is \<^verbatim>\<open>"error"\<close>.
\<close>

definition http_failure :: "'j http_outcome \<Rightarrow> string option" where
  "http_failure r = (case try_once r of Inl (HTTPError m) \<Rightarrow> Some m | _ \<Rightarrow> None)"

text \<open>The responses of the client's operations, by the fields the queue manager reads.\<close>

record magnet_upload =
  upload_id :: int
  upload_size :: int

record magnet_status =
  statusCode :: int
  links :: "string list"

record unlock_response =
  link :: string
  filename :: string
  filesize :: int

text \<open>Decimal rendering of an integer, as an f-string does it.\<close>

fun show_nat :: "nat \<Rightarrow> string" where
  "show_nat n =
     (if n < 10 then [char_of (48 + n)] else show_nat (n div 10) @ [char_of (48 + n mod 10)])"

declare show_nat.simps [simp del]

definition show_int :: "int \<Rightarrow> string" where
  "show_int i = (if i < 0 then CHR ''-'' # show_nat (nat (- i)) else show_nat (nat i))"

text \<open>
  \<^verbatim>\<open>wait_for_magnet_ready\<close>. \<open>poll k\<close> is what the \<open>k\<close>-th call of \<^verbatim>\<open>get_magnet_status\<close>
  returns or raises. With a poll interval that is not positive the loop of the source
  need not end, so the model is a partial function: \<open>None\<close> stands for no return.
\<close>

partial_function (option) wait_loop ::
  "(nat \<Rightarrow> exn + magnet_status) \<Rightarrow> int \<Rightarrow> int \<Rightarrow> int \<Rightarrow> int \<Rightarrow> nat
     \<Rightarrow> (exn + magnet_status) option" where
  "wait_loop poll magnet_id timeout poll_interval elapsed k =
     (if elapsed < timeout then
        (case poll k of
           Inl e \<Rightarrow> Some (Inl e)
         | Inr status \<Rightarrow>
             if statusCode status = 4 then Some (Inr status)
             else if statusCode status \<in> {5, 6, 7, 8, 11}
             then Some (Inl (ValueError
                    (''Magnet failed with status code '' @ show_int (statusCode status))))
             else wait_loop poll magnet_id timeout poll_interval (elapsed + poll_interval) (Suc k))
      else Some (Inl (TimeoutError
             (''Magnet '' @ show_int magnet_id @ '' not ready after '' @ show_int timeout
                @ ''s''))))"

declare wait_loop.simps [code]

definition wait_for_magnet_ready ::
  "(nat \<Rightarrow> exn + magnet_status) \<Rightarrow> int \<Rightarrow> int \<Rightarrow> int \<Rightarrow> (exn + magnet_status) option" where
  "wait_for_magnet_ready poll magnet_id timeout poll_interval =
     wait_loop poll magnet_id timeout poll_interval 0 0"

text \<open>
  A reply of \<^verbatim>\<open>get_magnet_status\<close> that makes \<^verbatim>\<open>wait_for_magnet_ready\<close> poll again: a
  status whose code is neither the ready code 4 nor one of the error codes.
\<close>

definition is_pending :: "exn + magnet_status \<Rightarrow> bool" where
  "is_pending r =
     (case r of Inl e \<Rightarrow> False
      | Inr st \<Rightarrow> statusCode st \<noteq> 4 \<and> statusCode st \<notin> {5, 6, 7, 8, 11})"

section \<open>Queue manager (\<^verbatim>\<open>downloader/queue.py\<close>)\<close>

text \<open>
  The collaborators of the start pipeline: the resolver client's operations and the
  engine's \<^verbatim>\<open>add_download\<close>, each returning its result or the exception it raises.
  \<open>get_magnet_status i k\<close> is the \<open>k\<close>-th status query for magnet \<open>i\<close>.
\<close>

record services =
  upload_magnet :: "string option \<Rightarrow> exn + magnet_upload"
  get_magnet_status :: "int \<Rightarrow> nat \<Rightarrow> exn + magnet_status"
  unlock_link :: "string \<Rightarrow> exn + unlock_response"
  add_download :: "string \<Rightarrow> string \<Rightarrow> string \<Rightarrow> exn + string"

text \<open>
  \<^verbatim>\<open>_start_torrent_download\<close>. The inner handler catches \<^verbatim>\<open>TimeoutError\<close> only; every
  other exception reaches the outer handler, which stores \<^verbatim>\<open>str(e)\<close>.
\<close>

definition start_torrent_download :: "services \<Rightarrow> store \<Rightarrow> torrent \<Rightarrow> store option" where
  "start_torrent_download env s torrent =
     (case upload_magnet env (magnet_uri torrent) of
        Inl e \<Rightarrow> Some (mark_torrent_error (hash torrent) (Some (str_of e)) s)
      | Inr upload_result \<Rightarrow>
          (let s1 = update_torrent (hash torrent)
                      (\<lambda>t. t\<lparr>alldebrid_id := Some (upload_id upload_result),
                              size_bytes := upload_size upload_result\<rparr>) s
           in case wait_for_magnet_ready (get_magnet_status env (upload_id upload_result))
                     (upload_id upload_result) 300 5 of
                None \<Rightarrow> None
              | Some (Inl (TimeoutError m)) \<Rightarrow>
                  Some (mark_torrent_error (hash torrent)
                          (Some ''AllDebrid processing timeout'') s1)
              | Some (Inl e) \<Rightarrow> Some (mark_torrent_error (hash torrent) (Some (str_of e)) s1)
              | Some (Inr status) \<Rightarrow>
                  (case links status of
                     [] \<Rightarrow> Some (mark_torrent_error (hash torrent)
                                   (Some ''No download links available'') s1)
                   | first_link # _ \<Rightarrow>
                       (case unlock_link env first_link of
                          Inl e \<Rightarrow>
                            Some (mark_torrent_error (hash torrent) (Some (str_of e)) s1)
                        | Inr unlock_result \<Rightarrow>
                            (let fname = (if filename unlock_result = [] then name torrent
                                          else filename unlock_result)
                             in case add_download env (link unlock_result) fname
                                       (save_path torrent) of
                                  Inl e \<Rightarrow>
                                    Some (mark_torrent_error (hash torrent)
                                            (Some (str_of e)) s1)
                                | Inr gid \<Rightarrow>
                                    Some (update_torrent (hash torrent)
                                      (\<lambda>t. t\<lparr>state := ''downloading'', aria2_gid := Some gid,
                                              download_link := Some (link unlock_result),
                                              name := fname,
                                              size_bytes := filesize unlock_result\<rparr>) s1))))))"

text \<open>
  How the start pipeline can change the row it runs on: the row ends in state \<open>error\<close>
  with its engine handle untouched, or in state \<open>downloading\<close> with its error message
  untouched; hash and progress stay.
\<close>

definition start_change :: "torrent \<Rightarrow> torrent \<Rightarrow> bool" where
  "start_change r r' =
     (hash r' = hash r \<and> progress r' = progress r \<and> aria2_gid r' = aria2_gid r \<and>
        state r' = ''error'' \<or>
      hash r' = hash r \<and> progress r' = progress r \<and> state r' = ''downloading'' \<and>
        error_message r' = error_message r)"

text \<open>\<^verbatim>\<open>_process_queued_torrents\<close>: the admission pass.\<close>

definition process_queued_torrents ::
  "settings \<Rightarrow> string \<Rightarrow> services \<Rightarrow> store \<Rightarrow> store option" where
  "process_queued_torrents cfg storage_type env s =
     (case get_torrents_by_state ''queued'' s of
        [] \<Rightarrow> Some s
      | torrent # _ \<Rightarrow>
          if \<not> can_start_download cfg storage_type (get_torrents_by_state ''downloading'' s)
          then Some s
          else start_torrent_download env s torrent)"

text \<open>
  The status dictionary of \<^verbatim>\<open>Aria2Manager.get_download_status\<close>, by the keys the
  reconciliation pass reads. The engine's error message may be absent.
\<close>

record aria2_status =
  status :: string
  total_length :: int
  completed_length :: int
  download_speed :: int
  status_progress :: real
  status_error_message :: "string option"

text \<open>
  \<^verbatim>\<open>int(a / b)\<close> for integers with \<open>b > 0\<close>: the quotient truncated towards zero. The
  source divides as floats; the exact quotient taken here agrees with it while the
  operands are below \<open>2 ^ 53\<close>.
\<close>

definition int_of_quotient :: "int \<Rightarrow> int \<Rightarrow> int" where
  "int_of_quotient a b = (if a < 0 then - ((- a) div b) else a div b)"

text \<open>
  The body of the loop of \<^verbatim>\<open>_update_downloading_torrents\<close> for one item. \<open>engine g\<close> is
  what \<^verbatim>\<open>get_download_status\<close> gives for the handle \<open>g\<close>: a status, \<open>None\<close>, or an exception
  (caught and logged by the loop). \<open>utcnow h\<close> is the clock when item \<open>h\<close> is handled.
\<close>

definition update_downloading_torrent ::
  "(string \<Rightarrow> int) \<Rightarrow> (string \<Rightarrow> exn + aria2_status option) \<Rightarrow> torrent \<Rightarrow> store \<Rightarrow> store" where
  "update_downloading_torrent utcnow engine torrent s =
     (case aria2_gid torrent of
        None \<Rightarrow> s
      | Some gid \<Rightarrow>
          if gid = [] then s
          else
            (case engine gid of
               Inl e \<Rightarrow> s
             | Inr None \<Rightarrow> s
             | Inr (Some st) \<Rightarrow>
                 (let prog = status_progress st / 100;
                      speed = download_speed st;
                      done = completed_length st;
                      total = total_length st;
                      eta_s = (if speed > 0 then int_of_quotient (total - done) speed else 0)
                  in if status st = ''complete'' then
                       update_torrent (hash torrent)
                         (\<lambda>t. t\<lparr>progress := 1, dlspeed := 0, downloaded := done,
                                 size_bytes := total, eta := 0, state := ''completed'',
                                 completion_on := Some (utcnow (hash torrent))\<rparr>) s
                     else if status st = ''error'' then
                       mark_torrent_error (hash torrent) (status_error_message st) s
                     else
                       update_torrent (hash torrent)
                         (\<lambda>t. t\<lparr>progress := prog, dlspeed := speed, downloaded := done,
                                 size_bytes := total, eta := eta_s\<rparr>) s)))"

text \<open>\<^verbatim>\<open>_update_downloading_torrents\<close>: the reconciliation pass.\<close>

definition update_downloading_torrents ::
  "(string \<Rightarrow> int) \<Rightarrow> (string \<Rightarrow> exn + aria2_status option) \<Rightarrow> store \<Rightarrow> store" where
  "update_downloading_torrents utcnow engine s =
     fold (update_downloading_torrent utcnow engine) (get_torrents_by_state ''downloading'' s) s"

text \<open>
  What the reconciliation pass makes of a downloading row, as a function of the row, the
  clock and the engine (shown below to agree with the pass).
\<close>

definition reconciled ::
  "(string \<Rightarrow> int) \<Rightarrow> (string \<Rightarrow> exn + aria2_status option) \<Rightarrow> torrent \<Rightarrow> torrent" where
  "reconciled utcnow engine t =
     (case aria2_gid t of
        None \<Rightarrow> t
      | Some gid \<Rightarrow>
          if gid = [] then t
          else
            (case engine gid of
               Inl e \<Rightarrow> t
             | Inr None \<Rightarrow> t
             | Inr (Some st) \<Rightarrow>
                 if status st = ''complete'' then
                   t\<lparr>progress := 1, dlspeed := 0, downloaded := completed_length st,
                     size_bytes := total_length st, eta := 0, state := ''completed'',
                     completion_on := Some (utcnow (hash t))\<rparr>
                 else if status st = ''error'' then
                   t\<lparr>state := ''error'', error_message := status_error_message st, dlspeed := 0\<rparr>
                 else
                   t\<lparr>progress := status_progress st / 100, dlspeed := download_speed st,
                     downloaded := completed_length st, size_bytes := total_length st,
                     eta := (if download_speed st > 0
                             then int_of_quotient (total_length st - completed_length st)
                                    (download_speed st)
                             else 0)\<rparr>))"

section \<open>Control API (\<^verbatim>\<open>api/routes.py\<close>)\<close>

text \<open>\<^verbatim>\<open>str.split\<close> with a separator and \<^verbatim>\<open>str.strip\<close> (characters below 256).\<close>

fun split_on :: "char \<Rightarrow> string \<Rightarrow> string list" where
  "split_on c [] = [[]]"
| "split_on c (x # xs) =
     (if x = c then [] # split_on c xs
      else (case split_on c xs of [] \<Rightarrow> [[x]] | w # ws \<Rightarrow> (x # w) # ws))"

definition is_space :: "char \<Rightarrow> bool" where
  "is_space c = ((of_char c :: nat) \<in> {9, 10, 11, 12, 13, 28, 29, 30, 31, 32, 133, 160})"

definition strip :: "string \<Rightarrow> string" where
  "strip u = rev (dropWhile is_space (rev (dropWhile is_space u)))"

definition magnet_uris :: "string \<Rightarrow> string list" where
  "magnet_uris urls = filter (\<lambda>u. u \<noteq> []) (map strip (split_on (CHR 0x0A) urls))"

text \<open>
  \<^verbatim>\<open>extract_hash_from_magnet\<close> and \<^verbatim>\<open>extract_name_from_magnet\<close> are functions of the URI
  alone, built on the regular-expression, base32 and SHA-1 libraries; they are
  parameters here. The base32 decoder can raise.
\<close>

record magnet_parser =
  extract_hash_from_magnet :: "string \<Rightarrow> exn + string"
  extract_name_from_magnet :: "string \<Rightarrow> string"

text \<open>
  The loop of \<^verbatim>\<open>add_torrent\<close>. Rows created before an exception stay (each creation
  commits). \<open>utcnow u\<close> is the clock when the row of URI \<open>u\<close> is inserted.
\<close>

fun add_all ::
  "settings \<Rightarrow> magnet_parser \<Rightarrow> string option \<Rightarrow> string option \<Rightarrow> (string \<Rightarrow> int)
     \<Rightarrow> string list \<Rightarrow> store \<Rightarrow> exn option \<times> store" where
  "add_all cfg p cat savepath utcnow [] s = (None, s)"
| "add_all cfg p cat savepath utcnow (magnet # rest) s =
     (case extract_hash_from_magnet p magnet of
        Inl e \<Rightarrow> (Some e, s)
      | Inr torrent_hash \<Rightarrow>
          (case get_torrent_by_hash torrent_hash s of
             Some existing \<Rightarrow> add_all cfg p cat savepath utcnow rest s
           | None \<Rightarrow>
               (let sp = (case savepath of
                            None \<Rightarrow> download_path cfg @ ''/complete''
                          | Some d \<Rightarrow> if d = [] then download_path cfg @ ''/complete'' else d)
                in case create_torrent cfg torrent_hash (extract_name_from_magnet p magnet)
                          magnet cat (Some sp) (utcnow magnet) s of
                     Inl e \<Rightarrow> (Some e, s)
                   | Inr s' \<Rightarrow> add_all cfg p cat savepath utcnow rest s')))"

text \<open>
  \<^verbatim>\<open>add_torrent\<close>: the reply is \<^verbatim>\<open>"Ok."\<close>, or the \<^verbatim>\<open>HTTPException\<close> with status 400 and
  the exception's text.
\<close>

definition add_torrent ::
  "settings \<Rightarrow> magnet_parser \<Rightarrow> string \<Rightarrow> string option \<Rightarrow> string option \<Rightarrow> (string \<Rightarrow> int)
     \<Rightarrow> store \<Rightarrow> ((int \<times> string) + string) \<times> store" where
  "add_torrent cfg p urls cat savepath utcnow s =
     (case add_all cfg p cat savepath utcnow (magnet_uris urls) s of
        (Some e, s') \<Rightarrow> (Inl (400, str_of e), s')
      | (None, s') \<Rightarrow> (Inr ''Ok.'', s'))"

text \<open>
  \<^verbatim>\<open>pause_torrents\<close>, \<^verbatim>\<open>resume_torrents\<close> and the store part of \<^verbatim>\<open>delete_torrents\<close>;
  \<open>hashes\<close> is the pipe-separated form field. Each replies \<^verbatim>\<open>"Ok."\<close>.
\<close>

definition pause_torrents :: "string \<Rightarrow> store \<Rightarrow> store" where
  "pause_torrents hashes s =
     fold (\<lambda>h. update_torrent h (\<lambda>t. t\<lparr>state := ''paused''\<rparr>)) (split_on (CHR ''|'') hashes) s"

definition resume_torrent :: "string \<Rightarrow> store \<Rightarrow> store" where
  "resume_torrent h s =
     (case get_torrent_by_hash h s of
        None \<Rightarrow> s
      | Some torrent \<Rightarrow>
          if state torrent = ''paused'' then update_torrent h (\<lambda>t. t\<lparr>state := ''queued''\<rparr>) s
          else s)"

definition resume_torrents :: "string \<Rightarrow> store \<Rightarrow> store" where
  "resume_torrents hashes s = fold resume_torrent (split_on (CHR ''|'') hashes) s"

definition delete_torrents :: "string \<Rightarrow> store \<Rightarrow> store" where
  "delete_torrents hashes s =
     fold (\<lambda>h s'. case get_torrent_by_hash h s' of None \<Rightarrow> s' | Some torrent \<Rightarrow> delete_torrent h s')
       (split_on (CHR ''|'') hashes) s"

section \<open>Runs of the system\<close>

text \<open>
  The operations that change the store: the API calls, the two passes of the queue
  manager, and \<^verbatim>\<open>mark_torrent_completed\<close>. A run applies a list of them in order.
\<close>

datatype operation =
    Submit magnet_parser string "string option" "string option" "string \<Rightarrow> int"
  | Admission string services
  | Reconciliation "string \<Rightarrow> int" "string \<Rightarrow> exn + aria2_status option"
  | Completion int string
  | Pause string
  | Resume string
  | Delete string

fun apply_operation :: "settings \<Rightarrow> operation \<Rightarrow> store \<Rightarrow> store option" where
  "apply_operation cfg (Submit p urls cat savepath utcnow) s =
     Some (snd (add_torrent cfg p urls cat savepath utcnow s))"
| "apply_operation cfg (Admission storage_type env) s =
     process_queued_torrents cfg storage_type env s"
| "apply_operation cfg (Reconciliation utcnow engine) s =
     Some (update_downloading_torrents utcnow engine s)"
| "apply_operation cfg (Completion now h) s = Some (mark_torrent_completed now h s)"
| "apply_operation cfg (Pause hashes) s = Some (pause_torrents hashes s)"
| "apply_operation cfg (Resume hashes) s = Some (resume_torrents hashes s)"
| "apply_operation cfg (Delete hashes) s = Some (delete_torrents hashes s)"

fun run :: "settings \<Rightarrow> operation list \<Rightarrow> store \<Rightarrow> store option" where
  "run cfg [] s = Some s"
| "run cfg (x # xs) s =
     (case apply_operation cfg x s of None \<Rightarrow> None | Some s' \<Rightarrow> run cfg xs s')"

fun is_pause :: "operation \<Rightarrow> bool" where
  "is_pause (Pause hashes) = True"
| "is_pause _ = False"

fun is_completion :: "operation \<Rightarrow> bool" where
  "is_completion (Completion now h) = True"
| "is_completion _ = False"

text \<open>
  A pause is in scope at a store when every row it names is in state \<open>queued\<close> or
  \<open>downloading\<close>, the states a pause is meant for; the pauses of a run are in scope when
  each is so at the store it is applied to.
\<close>

fun pause_in_scope :: "operation \<Rightarrow> store \<Rightarrow> bool" where
  "pause_in_scope (Pause hashes) s =
     list_all (\<lambda>r. hash r \<in> set (split_on (CHR ''|'') hashes)
                  \<longrightarrow> state r = ''queued'' \<or> state r = ''downloading'') s"
| "pause_in_scope _ s = True"

fun pauses_in_scope :: "settings \<Rightarrow> operation list \<Rightarrow> store \<Rightarrow> bool" where
  "pauses_in_scope cfg [] s = True"
| "pauses_in_scope cfg (x # xs) s =
     (pause_in_scope x s \<and>
      (case apply_operation cfg x s of None \<Rightarrow> True | Some s' \<Rightarrow> pauses_in_scope cfg xs s'))"

section \<open>Example data\<close>

text \<open>A row with the column defaults, in a given state, with a given size and insertion time.\<close>

definition example_torrent :: "string \<Rightarrow> string \<Rightarrow> int \<Rightarrow> int \<Rightarrow> torrent" where
  "example_torrent h st sz added =
     \<lparr>hash = h, name = ''Unknown'', magnet_uri = Some (''magnet:?xt=urn:btih:'' @ h),
      alldebrid_id = None, download_link = None, size_bytes = sz, downloaded = 0,
      uploaded = 0, progress = 0, dlspeed = 0, upspeed = 0, state = st,
      error_message = None, category = None, save_path = ''/downloads/complete'',
      aria2_gid = None, added_on = added, completion_on = None, ratio = 0, eta = 0\<rparr>"

text \<open>Bodies of the resolver: a structured error, and a success carrying data.\<close>

definition error_body :: "string \<Rightarrow> unit api_body" where
  "error_body m = \<lparr>body_status = Some ''error'', body_error_message = Some m, body_data = None\<rparr>"

definition data_body :: "unit api_body" where
  "data_body = \<lparr>body_status = Some ''success'', body_error_message = None, body_data = Some ()\<rparr>"

text \<open>An HTTP layer whose first response is a structured error and whose later ones succeed.\<close>

definition error_then_data :: "nat \<Rightarrow> unit http_outcome" where
  "error_then_data k = (if k = 0 then Responds (error_body ''MAGNET_INVALID'') else Responds data_body)"

text \<open>An HTTP layer that times out once and answers with a structured error afterwards.\<close>

definition timeout_then_error :: "nat \<Rightarrow> unit http_outcome" where
  "timeout_then_error k =
     (if k = 0 then HttpFails ''timed out'' else Responds (error_body ''MAGNET_INVALID''))"

text \<open>An HTTP layer that times out once and succeeds afterwards.\<close>

definition timeout_then_data :: "nat \<Rightarrow> unit http_outcome" where
  "timeout_then_data k = (if k = 0 then HttpFails ''timed out'' else Responds data_body)"

text \<open>A resolver that accepts every upload and reports "processing" for ever.\<close>

definition never_ready_services :: services where
  "never_ready_services =
     \<lparr>upload_magnet = (\<lambda>u. Inr \<lparr>upload_id = 7, upload_size = 100\<rparr>),
      get_magnet_status = (\<lambda>i k. Inr \<lparr>statusCode = 1, links = []\<rparr>),
      unlock_link = (\<lambda>l. Inl (OtherError ''not reached'')),
      add_download = (\<lambda>u f p. Inl (OtherError ''not reached''))\<rparr>"

text \<open>A resolver that refuses every upload.\<close>

definition refusing_services :: services where
  "refusing_services =
     \<lparr>upload_magnet = (\<lambda>u. Inl (HTTPError ''MAGNET_INVALID'')),
      get_magnet_status = (\<lambda>i k. Inl (OtherError ''not reached'')),
      unlock_link = (\<lambda>l. Inl (OtherError ''not reached'')),
      add_download = (\<lambda>u f p. Inl (OtherError ''not reached''))\<rparr>"

definition queued_a :: torrent where
  "queued_a = example_torrent ''a'' ''queued'' 0 10"

definition queued_b :: torrent where
  "queued_b = example_torrent ''b'' ''queued'' 0 5"

definition downloading_c :: torrent where
  "downloading_c = example_torrent ''c'' ''downloading'' 100 1"

text \<open>A downloading row with an engine handle, and engines reporting it complete or failed.\<close>

definition downloading_d :: torrent where
  "downloading_d =
     (example_torrent ''d'' ''downloading'' 1000 1)
       \<lparr>aria2_gid := Some ''2089b05ecca3d829'', progress := 1 / 5, dlspeed := 500,
        downloaded := 200, eta := 1\<rparr>"

definition complete_engine :: "string \<Rightarrow> exn + aria2_status option" where
  "complete_engine gid =
     Inr (Some \<lparr>status = ''complete'', total_length = 1000, completed_length = 1000,
                download_speed = 0, status_progress = 100, status_error_message = None\<rparr>)"

definition failed_engine :: "string \<Rightarrow> exn + aria2_status option" where
  "failed_engine gid =
     Inr (Some \<lparr>status = ''error'', total_length = 1000, completed_length = 300,
                download_speed = 0, status_progress = 30,
                status_error_message = Some ''disk full''\<rparr>)"

definition fixed_clock :: "string \<Rightarrow> int" where
  "fixed_clock h = 42"

text \<open>
  Further example data: a parser of magnet URIs, a resolver and engine that succeed at
  once, a resolver whose failure has an empty text, and runs built from them.
\<close>

definition example_parser :: magnet_parser where
  "example_parser =
     \<lparr>extract_hash_from_magnet =
        (\<lambda>u. if u = ''magnet:?xt=urn:btih:zz'' then Inl (OtherError ''Incorrect padding'')
              else Inr u),
      extract_name_from_magnet = (\<lambda>u. ''Unknown'')\<rparr>"

definition ready_services :: services where
  "ready_services =
     \<lparr>upload_magnet = (\<lambda>u. Inr \<lparr>upload_id = 7, upload_size = 100\<rparr>),
      get_magnet_status = (\<lambda>i k. Inr \<lparr>statusCode = 4, links = [''https://alldebrid.com/f/1'']\<rparr>),
      unlock_link = (\<lambda>l. Inr \<lparr>link = ''https://direct.example/f'', filename = ''f.bin'',
                               filesize = 100\<rparr>),
      add_download = (\<lambda>u f p. Inr ''2089b05ecca3d829'')\<rparr>"

definition silent_services :: services where
  "silent_services =
     \<lparr>upload_magnet = (\<lambda>u. Inl (HTTPError [])),
      get_magnet_status = (\<lambda>i k. Inl (OtherError ''not reached'')),
      unlock_link = (\<lambda>l. Inl (OtherError ''not reached'')),
      add_download = (\<lambda>u f p. Inl (OtherError ''not reached''))\<rparr>"

definition submit_a :: operation where
  "submit_a = Submit example_parser ''a'' None None fixed_clock"

definition download_run :: "operation list" where
  "download_run =
     [submit_a, Admission ''ssd'' ready_services, Reconciliation fixed_clock complete_engine]"

definition marked_run :: "operation list" where
  "marked_run = [submit_a, Admission ''ssd'' ready_services, Completion 50 ''a'']"

definition refused_run :: "operation list" where
  "refused_run = [submit_a, Admission ''ssd'' refusing_services]"

definition silent_run :: "operation list" where
  "silent_run = [submit_a, Admission ''ssd'' silent_services]"

definition pause_resume_run :: "operation list" where
  "pause_resume_run =
     [submit_a, Pause ''a'', Resume ''a'', Admission ''ssd'' refusing_services]"

definition started_a :: torrent where
  "started_a =
     (example_torrent ''a'' ''downloading'' 100 42)
       \<lparr>name := ''f.bin'', magnet_uri := Some ''a'', alldebrid_id := Some 7,
        download_link := Some ''https://direct.example/f'',
        aria2_gid := Some ''2089b05ecca3d829''\<rparr>"

definition refused_a :: torrent where
  "refused_a =
     (example_torrent ''a'' ''error'' 0 42)
       \<lparr>magnet_uri := Some ''a'', error_message := Some ''MAGNET_INVALID''\<rparr>"

definition completed_e :: torrent where
  "completed_e =
     (example_torrent ''e'' ''completed'' 100 3)
       \<lparr>progress := 1, downloaded := 100, completion_on := Some 9\<rparr>"

section \<open>Admission policy: properties\<close>

text \<open>
  C1. With the cutoff at 20 GiB and the small-file cap at 3: the admission check returns
  true on the empty list; on \<open>hdd\<close> it returns false if some downloading item is larger
  than 20 GiB, and otherwise true exactly when fewer than 3 items are downloading; on
  \<open>ssd\<close> it returns true exactly when fewer than 5 items are downloading.
\<close>

theorem can_start_download_policy:
  assumes "size_threshold_gb cfg = 20" and "simultaneous_small_files cfg = 3"
  shows "can_start_download cfg storage_type [] \<and>
         ((\<exists>t \<in> set downloading. size_bytes t > 20 * 1024 ^ 3)
            \<longrightarrow> \<not> can_start_download cfg ''hdd'' downloading) \<and>
         (\<not> (\<exists>t \<in> set downloading. size_bytes t > 20 * 1024 ^ 3)
            \<longrightarrow> can_start_download cfg ''hdd'' downloading = (length downloading < 3)) \<and>
         can_start_download cfg ''ssd'' downloading = (length downloading < 5)"
proof (intro conjI impI)
  show "can_start_download cfg storage_type []"
    by (simp add: can_start_download_def)
next
  assume "\<exists>t \<in> set downloading. size_bytes t > 20 * 1024 ^ 3"
  then have "filter (\<lambda>t. size_bytes t > 20 * 1024 ^ 3) downloading \<noteq> []"
    by (simp add: filter_empty_conv)
  moreover from this have "downloading \<noteq> []" by auto
  ultimately show "\<not> can_start_download cfg ''hdd'' downloading"
    using assms by (simp add: can_start_download_def)
next
  assume "\<not> (\<exists>t \<in> set downloading. size_bytes t > 20 * 1024 ^ 3)"
  then have "filter (\<lambda>t. size_bytes t > 20 * 1024 ^ 3) downloading = []"
    by (simp add: filter_empty_conv)
  then show "can_start_download cfg ''hdd'' downloading = (length downloading < 3)"
    using assms by (cases downloading) (simp_all add: can_start_download_def)
next
  show "can_start_download cfg ''ssd'' downloading = (length downloading < 5)"
    by (cases downloading) (simp_all add: can_start_download_def)
qed

text \<open>
  The examples of the specification on \<open>hdd\<close>: one item of 25 GiB blocks admission, three
  items of 1 GiB block it, two items of 1 GiB allow it.
\<close>

theorem can_start_download_policy_witness:
  "size_threshold_gb default_settings = 20 \<and> simultaneous_small_files default_settings = 3 \<and>
   \<not> can_start_download default_settings ''hdd''
       [example_torrent ''a'' ''downloading'' (25 * 1024 ^ 3) 0] \<and>
   \<not> can_start_download default_settings ''hdd''
       [example_torrent ''a'' ''downloading'' (1024 ^ 3) 0,
        example_torrent ''b'' ''downloading'' (1024 ^ 3) 1,
        example_torrent ''c'' ''downloading'' (1024 ^ 3) 2] \<and>
   can_start_download default_settings ''hdd''
       [example_torrent ''a'' ''downloading'' (1024 ^ 3) 0,
        example_torrent ''b'' ''downloading'' (1024 ^ 3) 1]"
  using can_start_download_policy [where cfg = default_settings and downloading =
          "[example_torrent ''a'' ''downloading'' (25 * 1024 ^ 3) 0]"]
        can_start_download_policy [where cfg = default_settings and downloading =
          "[example_torrent ''a'' ''downloading'' (1024 ^ 3) 0,
            example_torrent ''b'' ''downloading'' (1024 ^ 3) 1,
            example_torrent ''c'' ''downloading'' (1024 ^ 3) 2]"]
        can_start_download_policy [where cfg = default_settings and downloading =
          "[example_torrent ''a'' ''downloading'' (1024 ^ 3) 0,
            example_torrent ''b'' ''downloading'' (1024 ^ 3) 1]"]
  by (simp add: default_settings_def example_torrent_def)

section \<open>Resolver client: retries\<close>

lemma http_failure_SomeD: "http_failure r = Some m \<Longrightarrow> try_once r = Inl (HTTPError m)"
  by (auto simp: http_failure_def split: sum.splits exn.splits)

lemma request_loop_failed_attempt:
  assumes "int attempt < retries" and "http_method = ''GET'' \<or> http_method = ''POST''"
    and "try_once (http attempt) = Inl (HTTPError m)"
  shows "request_loop http_method http retries attempt slept =
           (if int attempt = retries - 1
            then \<lparr>outcome = Inl (HTTPError m), sleeps = slept, calls = Suc attempt\<rparr>
            else request_loop http_method http retries (Suc attempt) (slept @ [2 ^ attempt]))"
  using assms by (subst request_loop.simps [of http_method http retries attempt slept]) auto

lemma request_loop_all_fail:
  assumes "\<forall>k. attempt \<le> k \<and> int k < retries \<longrightarrow> http_failure (http k) \<noteq> None"
    and "int attempt < retries" and "http_method = ''GET'' \<or> http_method = ''POST''"
    and "n = nat retries - 1 - attempt"
  shows "request_loop http_method http retries attempt slept =
           \<lparr>outcome = Inl (HTTPError (the (http_failure (http (nat retries - 1))))),
            sleeps = slept @ map (\<lambda>k. 2 ^ k) [attempt ..< nat retries - 1],
            calls = nat retries\<rparr>"
  using assms
proof (induction n arbitrary: attempt slept)
  case 0
  then have last: "int attempt = retries - 1" and eq: "nat retries - 1 = attempt" by auto
  from 0 obtain m where m: "http_failure (http attempt) = Some m" by blast
  show ?case
    using request_loop_failed_attempt [where http = http and attempt = attempt and slept = slept,
        OF "0.prems"(2,3) http_failure_SomeD [OF m]]
      last eq m by simp
next
  case (Suc n)
  then have notlast: "int attempt \<noteq> retries - 1" and lt: "int (Suc attempt) < retries"
    and n: "n = nat retries - 1 - Suc attempt" by auto
  from Suc.prems obtain m where m: "http_failure (http attempt) = Some m" by blast
  have rest: "\<forall>k. Suc attempt \<le> k \<and> int k < retries \<longrightarrow> http_failure (http k) \<noteq> None"
    using Suc.prems(1) by auto
  have upt: "[attempt ..< nat retries - 1] = attempt # [Suc attempt ..< nat retries - 1]"
    using lt by (simp add: upt_conv_Cons)
  show ?case
    using request_loop_failed_attempt [where http = http and attempt = attempt and slept = slept,
        OF Suc.prems(2,3) http_failure_SomeD [OF m]]
      Suc.IH [OF rest lt Suc.prems(3) n, of "slept @ [2 ^ attempt]"] notlast upt
    by simp
qed

lemma request_all_attempts_fail:
  assumes "0 < retries" and "http_method = ''GET'' \<or> http_method = ''POST''"
    and "\<forall>k. int k < retries \<longrightarrow> http_failure (http k) \<noteq> None"
  shows "request http_method http retries =
           \<lparr>outcome = Inl (HTTPError (the (http_failure (http (nat retries - 1))))),
            sleeps = map (\<lambda>k. 2 ^ k) [0 ..< nat retries - 1],
            calls = nat retries\<rparr>"
  unfolding request_def
  using request_loop_all_fail [of 0 retries http http_method "nat retries - 1 - 0" "[]"] assms
  by simp

lemma request_loop_leading_failures:
  assumes "\<forall>k. attempt \<le> k \<and> k < attempt + n \<longrightarrow> http_failure (http k) \<noteq> None"
    and "int (attempt + n) < retries" and "http_method = ''GET'' \<or> http_method = ''POST''"
  shows "request_loop http_method http retries attempt slept =
           request_loop http_method http retries (attempt + n)
             (slept @ map (\<lambda>k. 2 ^ k) [attempt ..< attempt + n])"
  using assms
proof (induction n arbitrary: attempt slept)
  case 0
  then show ?case by simp
next
  case (Suc n)
  from Suc.prems(1) obtain m where m: "http_failure (http attempt) = Some m" by force
  have lt: "int attempt < retries" and notlast: "int attempt \<noteq> retries - 1"
    using Suc.prems(2) by auto
  have rest: "\<forall>k. Suc attempt \<le> k \<and> k < Suc attempt + n \<longrightarrow> http_failure (http k) \<noteq> None"
    using Suc.prems(1) by auto
  have lt': "int (Suc attempt + n) < retries" using Suc.prems(2) by simp
  have upt: "[attempt ..< attempt + Suc n] = attempt # [Suc attempt ..< Suc attempt + n]"
    by (simp add: upt_conv_Cons)
  show ?case
    using request_loop_failed_attempt [where http = http and attempt = attempt and slept = slept,
        OF lt Suc.prems(3) http_failure_SomeD [OF m]]
      Suc.IH [OF rest lt' Suc.prems(3), of "slept @ [2 ^ attempt]"] notlast upt
    by simp
qed

lemma request_loop_deciding_attempt:
  assumes "int n < retries" and "http_method = ''GET'' \<or> http_method = ''POST''"
  shows "request_loop http_method http retries n slept =
           (case try_once (http n) of
              Inr r \<Rightarrow> \<lparr>outcome = Inr r, sleeps = slept, calls = Suc n\<rparr>
            | Inl (HTTPError m) \<Rightarrow>
                if int n = retries - 1
                then \<lparr>outcome = Inl (HTTPError m), sleeps = slept, calls = Suc n\<rparr>
                else request_loop http_method http retries (Suc n) (slept @ [2 ^ n])
            | Inl e \<Rightarrow> \<lparr>outcome = Inl e, sleeps = slept, calls = Suc n\<rparr>)"
  using assms by (subst request_loop.simps [of http_method http retries n slept]) auto

text \<open>
  C2, as the code has it. Every attempt that ends in \<^verbatim>\<open>httpx.HTTPError\<close> is retried, be it
  a transport failure or a body whose \<^verbatim>\<open>status\<close> is \<^verbatim>\<open>"error"\<close>. Let the attempts
  \<open>0, ..., n - 1\<close> of a request end so, with \<open>n\<close> below the attempt cap. Then the request
  has slept \<open>2 ^ k\<close> seconds after each failed attempt \<open>k\<close> (1, 2, 4, ...) and attempt \<open>n\<close>
  decides: if it succeeds, its result is returned after \<open>n + 1\<close> calls; if it raises
  another exception, that one is raised at once; if it ends in \<^verbatim>\<open>httpx.HTTPError\<close> and is
  the last allowed attempt, the error is raised with no further sleep; and if it ends in
  \<^verbatim>\<open>httpx.HTTPError\<close> and is not the last, the request sleeps \<open>2 ^ n\<close> seconds and goes
  on with attempt \<open>n + 1\<close>.
\<close>

theorem request_retries_every_http_error:
  assumes "http_method = ''GET'' \<or> http_method = ''POST''"
    and "int n < retries"
    and "\<forall>k<n. http_failure (http k) \<noteq> None"
  shows "(\<forall>r. try_once (http n) = Inr r \<longrightarrow>
            request http_method http retries =
              \<lparr>outcome = Inr r, sleeps = map (\<lambda>k. 2 ^ k) [0 ..< n], calls = Suc n\<rparr>) \<and>
         (\<forall>e. try_once (http n) = Inl e \<and> http_failure (http n) = None \<longrightarrow>
            request http_method http retries =
              \<lparr>outcome = Inl e, sleeps = map (\<lambda>k. 2 ^ k) [0 ..< n], calls = Suc n\<rparr>) \<and>
         (\<forall>m. http_failure (http n) = Some m \<and> int n = retries - 1 \<longrightarrow>
            request http_method http retries =
              \<lparr>outcome = Inl (HTTPError m), sleeps = map (\<lambda>k. 2 ^ k) [0 ..< n],
               calls = Suc n\<rparr>) \<and>
         (\<forall>m. http_failure (http n) = Some m \<and> int n \<noteq> retries - 1 \<longrightarrow>
            request http_method http retries =
              request_loop http_method http retries (Suc n) (map (\<lambda>k. 2 ^ k) [0 ..< Suc n]))"
proof -
  have lead: "request http_method http retries =
      request_loop http_method http retries n (map (\<lambda>k. 2 ^ k) [0 ..< n])"
    unfolding request_def
    using request_loop_leading_failures [of 0 n http retries http_method "[]"] assms
    by simp
  note dec = request_loop_deciding_attempt [OF assms(2,1), of http "map (\<lambda>k. 2 ^ k) [0 ..< n]"]
  show ?thesis
  proof (intro conjI allI impI)
    fix r assume "try_once (http n) = Inr r"
    then show "request http_method http retries =
        \<lparr>outcome = Inr r, sleeps = map (\<lambda>k. 2 ^ k) [0 ..< n], calls = Suc n\<rparr>"
      using lead dec by simp
  next
    fix e assume "try_once (http n) = Inl e \<and> http_failure (http n) = None"
    then show "request http_method http retries =
        \<lparr>outcome = Inl e, sleeps = map (\<lambda>k. 2 ^ k) [0 ..< n], calls = Suc n\<rparr>"
      using lead dec by (auto simp: http_failure_def split: exn.splits)
  next
    fix m assume "http_failure (http n) = Some m \<and> int n = retries - 1"
    then show "request http_method http retries =
        \<lparr>outcome = Inl (HTTPError m), sleeps = map (\<lambda>k. 2 ^ k) [0 ..< n], calls = Suc n\<rparr>"
      using lead dec http_failure_SomeD [of "http n" m] by simp
  next
    fix m assume "http_failure (http n) = Some m \<and> int n \<noteq> retries - 1"
    then show "request http_method http retries =
        request_loop http_method http retries (Suc n) (map (\<lambda>k. 2 ^ k) [0 ..< Suc n])"
      using lead dec http_failure_SomeD [of "http n" m] by simp
  qed
qed

text \<open>
  With the default of 3 attempts: a transport timeout followed by a success returns the
  data after one sleep of 1 second; a transport timeout followed by structured errors
  makes three calls, sleeps 1 and 2 seconds, and raises the structured error at the end.
\<close>

theorem request_retries_every_http_error_witness:
  "request ''GET'' timeout_then_data 3 = \<lparr>outcome = Inr (Data ()), sleeps = [1], calls = 2\<rparr> \<and>
   request ''GET'' timeout_then_error 3 =
     \<lparr>outcome = Inl (HTTPError ''MAGNET_INVALID''), sleeps = [1, 2], calls = 3\<rparr>"
  using request_retries_every_http_error [of "''GET''" 1 3 timeout_then_data]
    request_retries_every_http_error [of "''GET''" 2 3 timeout_then_error]
  by (simp add: http_failure_def try_once_def error_body_def data_body_def
      timeout_then_error_def timeout_then_data_def upt_rec)

text \<open>
  C2 as stated fails: a structured error on the first attempt is not surfaced. The request
  sleeps one second, calls again, and returns the data of the second response.
\<close>

theorem request_structured_error_is_retried:
  "request ''GET'' error_then_data 3 = \<lparr>outcome = Inr (Data ()), sleeps = [1], calls = 2\<rparr>"
  by (simp add: request_def request_loop.simps try_once_def error_body_def data_body_def
      error_then_data_def)

section \<open>Start pipeline: readiness timeout\<close>

lemma wait_loop_pending_step:
  assumes "elapsed < timeout" and "is_pending (poll k)"
  shows "wait_loop poll mid timeout step elapsed k =
           wait_loop poll mid timeout step (elapsed + step) (Suc k)"
  using assms
  by (subst wait_loop.simps [of poll mid timeout step elapsed k])
    (auto simp: is_pending_def split: sum.splits)

lemma wait_loop_pending:
  assumes "0 < step"
    and "\<forall>j. elapsed + int j * step < timeout \<longrightarrow> is_pending (poll (k + j))"
  shows "wait_loop poll mid timeout step elapsed k =
           Some (Inl (TimeoutError (''Magnet '' @ show_int mid @ '' not ready after ''
                   @ show_int timeout @ ''s'')))"
  using assms
proof (induction "nat (timeout - elapsed)" arbitrary: elapsed k rule: less_induct)
  case less
  show ?case
  proof (cases "elapsed < timeout")
    case False
    then show ?thesis
      by (subst wait_loop.simps [of poll mid timeout step elapsed k]) simp
  next
    case True
    with less.prems(2) [rule_format, of 0] have pend: "is_pending (poll k)" by simp
    have smaller: "nat (timeout - (elapsed + step)) < nat (timeout - elapsed)"
      using True less.prems(1) by simp
    have rest: "\<forall>j. (elapsed + step) + int j * step < timeout \<longrightarrow> is_pending (poll (Suc k + j))"
    proof (intro allI impI)
      fix j assume "(elapsed + step) + int j * step < timeout"
      then have "elapsed + int (Suc j) * step < timeout" by (simp add: algebra_simps)
      with less.prems(2) [rule_format, of "Suc j"] show "is_pending (poll (Suc k + j))" by simp
    qed
    show ?thesis
      using wait_loop_pending_step [where poll = poll and k = k and mid = mid and step = step,
          OF True pend]
        less.hyps [OF smaller less.prems(1) rest] by simp
  qed
qed

lemma wait_loop_returns:
  assumes "0 < step"
  shows "\<exists>r. wait_loop poll mid timeout step elapsed k = Some r"
  using assms
proof (induction "nat (timeout - elapsed)" arbitrary: elapsed k rule: less_induct)
  case less
  show ?case
  proof (cases "elapsed < timeout \<and> is_pending (poll k)")
    case False
    then show ?thesis
      by (subst wait_loop.simps [of poll mid timeout step elapsed k])
        (auto simp: is_pending_def split: sum.splits)
  next
    case True
    then have smaller: "nat (timeout - (elapsed + step)) < nat (timeout - elapsed)"
      using less.prems(1) by simp
    show ?thesis
      using wait_loop_pending_step [of elapsed timeout poll k mid step] True
        less.hyps [OF smaller less.prems(1), of "Suc k"] by simp
  qed
qed

lemma wait_for_magnet_ready_times_out:
  assumes "\<forall>k<60. is_pending (poll k)"
  shows "wait_for_magnet_ready poll mid 300 5 =
           Some (Inl (TimeoutError (''Magnet '' @ show_int mid @ '' not ready after ''
                   @ show_int 300 @ ''s'')))"
  unfolding wait_for_magnet_ready_def
proof (rule wait_loop_pending)
  show "(0::int) < 5" by simp
  show "\<forall>j. 0 + int j * 5 < 300 \<longrightarrow> is_pending (poll (0 + j))"
    using assms by auto
qed

lemma start_torrent_download_times_out:
  assumes "upload_magnet env (magnet_uri torrent) = Inr up"
    and "\<forall>k<60. is_pending (get_magnet_status env (upload_id up) k)"
  shows "start_torrent_download env s torrent =
           Some (mark_torrent_error (hash torrent) (Some ''AllDebrid processing timeout'')
                  (update_torrent (hash torrent)
                     (\<lambda>t. t\<lparr>alldebrid_id := Some (upload_id up),
                             size_bytes := upload_size up\<rparr>) s))"
  using assms(1) wait_for_magnet_ready_times_out [OF assms(2), of "upload_id up"]
  by (simp add: start_torrent_download_def)

lemma start_torrent_download_returns:
  "\<exists>s'. start_torrent_download env s torrent = Some s'"
proof (cases "upload_magnet env (magnet_uri torrent)")
  case (Inl e)
  then show ?thesis by (simp add: start_torrent_download_def)
next
  case (Inr up)
  obtain r where "wait_for_magnet_ready (get_magnet_status env (upload_id up)) (upload_id up) 300 5
      = Some r"
    unfolding wait_for_magnet_ready_def
    using wait_loop_returns [of 5 "get_magnet_status env (upload_id up)" "upload_id up" 300 0 0]
    by auto
  with Inr show ?thesis
    by (auto simp: start_torrent_download_def Let_def split: sum.splits exn.splits list.splits)
qed

lemma update_torrent_hashes:
  "(\<And>t. hash (f t) = hash t) \<Longrightarrow> map hash (update_torrent h f s) = map hash s"
  by (induction s) (simp_all add: update_torrent_def)

text \<open>
  C7, as the code has it. When the upload succeeds and each of the 60 status queries of
  the 300 seconds (one every 5 seconds) reports a code that is neither ready nor an error
  code, the start pipeline ends by marking the item \<open>error\<close> with the message
  \<^verbatim>\<open>AllDebrid processing timeout\<close>: the result is the store after the upload step with
  that mark, no row's \<open>aria2_gid\<close> has changed, and the item is in state \<open>error\<close>.
\<close>

theorem start_torrent_download_timeout:
  assumes "upload_magnet env (magnet_uri torrent) = Inr up"
    and "\<forall>k<60. is_pending (get_magnet_status env (upload_id up) k)"
  shows "\<exists>s'. start_torrent_download env s torrent = Some s' \<and>
           s' = mark_torrent_error (hash torrent) (Some ''AllDebrid processing timeout'')
                  (update_torrent (hash torrent)
                     (\<lambda>t. t\<lparr>alldebrid_id := Some (upload_id up),
                             size_bytes := upload_size up\<rparr>) s) \<and>
           map hash s' = map hash s \<and>
           map aria2_gid s' = map aria2_gid s \<and>
           (\<forall>t \<in> set s'. hash t = hash torrent \<longrightarrow>
              state t = ''error'' \<and> error_message t = Some ''AllDebrid processing timeout'')"
  using start_torrent_download_times_out [OF assms, of s]
  by (auto simp: mark_torrent_error_def update_torrent_def comp_def)

text \<open>The pipeline on a fresh item with a resolver that never gets ready.\<close>

theorem start_torrent_download_timeout_witness:
  "upload_magnet never_ready_services (magnet_uri queued_a)
     = Inr \<lparr>upload_id = 7, upload_size = 100\<rparr> \<and>
   is_pending (get_magnet_status never_ready_services 7 59) \<and>
   start_torrent_download never_ready_services [queued_a, queued_b] queued_a =
     Some [queued_a\<lparr>alldebrid_id := Some 7, size_bytes := 100, state := ''error'',
                    error_message := Some ''AllDebrid processing timeout'', dlspeed := 0\<rparr>,
           queued_b]"
  using start_torrent_download_timeout [of never_ready_services queued_a
          "\<lparr>upload_id = 7, upload_size = 100\<rparr>" "[queued_a, queued_b]"]
  by (simp add: never_ready_services_def is_pending_def mark_torrent_error_def
      update_torrent_def queued_a_def queued_b_def example_torrent_def)

text \<open>
  C7 as stated fails on the message: the stored text is \<^verbatim>\<open>AllDebrid processing timeout\<close>,
  not \<^verbatim>\<open>resolution timeout\<close>.
\<close>

theorem start_torrent_download_timeout_message:
  "map error_message (the (start_torrent_download never_ready_services [queued_a] queued_a))
     = [Some ''AllDebrid processing timeout''] \<and>
   map error_message (the (start_torrent_download never_ready_services [queued_a] queued_a))
     \<noteq> [Some ''resolution timeout'']"
  using start_torrent_download_times_out [of never_ready_services queued_a
          "\<lparr>upload_id = 7, upload_size = 100\<rparr>" "[queued_a]"]
  by (simp add: never_ready_services_def is_pending_def mark_torrent_error_def
      update_torrent_def queued_a_def example_torrent_def)

section \<open>Admission pass: which item starts\<close>

lemma sorted_first_queued:
  assumes "sorted (map added_on (pre @ t # post))" and "\<forall>r \<in> set pre. state r \<noteq> ''queued''"
    and "r \<in> set (pre @ t # post)" and "state r = ''queued''"
  shows "added_on t \<le> added_on r"
  using assms by (auto simp: sorted_append)

text \<open>
  C3, as the code has it. When some item is queued and admission is allowed, the admission
  pass is the start pipeline run on one item, and it returns: the item is the first row of
  the store, in row order, whose state is \<open>queued\<close> (the query by state has no ordering
  clause). When the rows'
  \<open>added_on\<close> values do not decrease along the row order, no queued item has an earlier
  \<open>added_on\<close> than that one.
\<close>

theorem process_queued_torrents_starts_first_queued:
  assumes "get_torrents_by_state ''queued'' s \<noteq> []"
    and "can_start_download cfg storage_type (get_torrents_by_state ''downloading'' s)"
  shows "let t = hd (get_torrents_by_state ''queued'' s) in
           process_queued_torrents cfg storage_type env s = start_torrent_download env s t \<and>
           (\<exists>s'. process_queued_torrents cfg storage_type env s = Some s') \<and>
           state t = ''queued'' \<and>
           (\<exists>pre post. s = pre @ t # post \<and> (\<forall>r \<in> set pre. state r \<noteq> ''queued'')) \<and>
           (sorted (map added_on s) \<longrightarrow>
              (\<forall>r \<in> set s. state r = ''queued'' \<longrightarrow> added_on t \<le> added_on r))"
proof -
  from assms(1) obtain t rest where q: "get_torrents_by_state ''queued'' s = t # rest"
    by (cases "get_torrents_by_state ''queued'' s") auto
  then obtain pre post where split: "s = pre @ t # post"
    and pre: "\<forall>r \<in> set pre. state r \<noteq> ''queued''" and t: "state t = ''queued''"
    unfolding get_torrents_by_state_def filter_eq_Cons_iff by blast
  have run: "process_queued_torrents cfg storage_type env s = start_torrent_download env s t"
    using q assms(2) by (simp add: process_queued_torrents_def)
  have earliest: "\<forall>r \<in> set s. state r = ''queued'' \<longrightarrow> added_on t \<le> added_on r"
    if "sorted (map added_on s)"
    using sorted_first_queued [OF _ pre] that split by blast
  have returns: "\<exists>s'. process_queued_torrents cfg storage_type env s = Some s'"
    using run start_torrent_download_returns [of env s t] by simp
  show ?thesis
    using q run returns t split pre earliest by (auto simp: Let_def)
qed

text \<open>A store in insertion order: the earlier of the two queued items is started.\<close>

theorem process_queued_torrents_starts_first_queued_witness:
  "get_torrents_by_state ''queued'' [downloading_c, queued_b, queued_a] \<noteq> [] \<and>
   can_start_download default_settings ''ssd''
     (get_torrents_by_state ''downloading'' [downloading_c, queued_b, queued_a]) \<and>
   sorted (map added_on [downloading_c, queued_b, queued_a]) \<and>
   process_queued_torrents default_settings ''ssd'' refusing_services
       [downloading_c, queued_b, queued_a]
     = start_torrent_download refusing_services [downloading_c, queued_b, queued_a] queued_b \<and>
   added_on queued_b \<le> added_on queued_a"
  using process_queued_torrents_starts_first_queued [of "[downloading_c, queued_b, queued_a]"
          default_settings "''ssd''" refusing_services]
  by (simp add: get_torrents_by_state_def can_start_download_def default_settings_def
      queued_a_def queued_b_def downloading_c_def example_torrent_def Let_def)

text \<open>
  C3 as stated fails when a row inserted first carries the later timestamp: the pass runs
  the pipeline on \<open>queued_a\<close> (added at 10) and leaves \<open>queued_b\<close> (added at 5) queued.
\<close>

theorem process_queued_torrents_not_earliest:
  "process_queued_torrents default_settings ''ssd'' refusing_services [queued_a, queued_b]
     = Some [queued_a\<lparr>state := ''error'', error_message := Some ''MAGNET_INVALID'',
                     dlspeed := 0\<rparr>, queued_b] \<and>
   state queued_b = ''queued'' \<and> added_on queued_b < added_on queued_a"
  by (simp add: process_queued_torrents_def start_torrent_download_def
      get_torrents_by_state_def can_start_download_def refusing_services_def
      mark_torrent_error_def update_torrent_def
      queued_a_def queued_b_def example_torrent_def)

section \<open>Reconciliation pass\<close>

lemma hash_reconciled [simp]: "hash (reconciled utcnow engine t) = hash t"
  by (simp add: reconciled_def split: option.splits sum.splits)

lemma same_hash_same_row:
  "distinct (map hash s) \<Longrightarrow> r \<in> set s \<Longrightarrow> t \<in> set s \<Longrightarrow> hash r = hash t \<Longrightarrow> r = t"
  by (meson distinct_map inj_on_def)

lemma update_torrent_row:
  assumes "distinct (map hash s)" and "t \<in> set s"
  shows "update_torrent (hash t) f s = map (\<lambda>r. if r = t then f t else r) s"
  unfolding update_torrent_def
  by (rule map_cong [OF refl]) (use assms same_hash_same_row in auto)

lemma update_downloading_torrent_row:
  assumes "distinct (map hash s)" and "t \<in> set s"
  shows "update_downloading_torrent utcnow engine t s =
           map (\<lambda>r. if r = t then reconciled utcnow engine t else r) s"
proof -
  have skip: "map (\<lambda>r. if r = t then t else r) s = s"
    by (induction s) auto
  show ?thesis
    by (auto simp: update_downloading_torrent_def reconciled_def mark_torrent_error_def Let_def
        update_torrent_row [OF assms] skip cong: if_cong split: option.splits sum.splits)
qed

lemma fold_update_downloading_torrent:
  assumes "distinct (map hash s)" and "set ts \<subseteq> set s" and "distinct ts"
  shows "fold (update_downloading_torrent utcnow engine) ts s =
           map (\<lambda>r. if r \<in> set ts then reconciled utcnow engine r else r) s"
  using assms
proof (induction ts arbitrary: s)
  case Nil
  then show ?case by simp
next
  case (Cons t ts)
  let ?s1 = "map (\<lambda>r. if r = t then reconciled utcnow engine t else r) s"
  have t: "t \<in> set s" and tnot: "t \<notin> set ts" using Cons.prems by auto
  have step: "update_downloading_torrent utcnow engine t s = ?s1"
    using update_downloading_torrent_row [OF Cons.prems(1) t] .
  have hashes: "map hash ?s1 = map hash s" by (induction s) auto
  have d1: "distinct (map hash ?s1)" unfolding hashes by (rule Cons.prems(1))
  have other: "hash r \<noteq> hash t" if "r \<in> set ts" for r
    using same_hash_same_row [OF Cons.prems(1) _ t] that tnot Cons.prems(2) by auto
  have sub: "set ts \<subseteq> set ?s1"
  proof
    fix r assume r: "r \<in> set ts"
    then have "r \<in> set s" "r \<noteq> t" using Cons.prems(2) tnot by auto
    then show "r \<in> set ?s1" by (auto simp: image_iff)
  qed
  have notin: "reconciled utcnow engine t \<notin> set ts"
    using other [of "reconciled utcnow engine t"] by auto
  have "fold (update_downloading_torrent utcnow engine) (t # ts) s =
          map (\<lambda>r. if r \<in> set ts then reconciled utcnow engine r else r) ?s1"
    using Cons.IH [OF d1 sub] Cons.prems(3) step by simp
  also have "\<dots> = map (\<lambda>r. if r \<in> set (t # ts) then reconciled utcnow engine r else r) s"
    using notin tnot by (auto simp: comp_def)
  finally show ?case .
qed

lemma update_downloading_torrents_rows:
  assumes "distinct (map hash s)"
  shows "update_downloading_torrents utcnow engine s =
           map (\<lambda>r. if state r = ''downloading'' then reconciled utcnow engine r else r) s"
proof -
  have d: "distinct s" using assms by (simp add: distinct_map)
  have "update_downloading_torrents utcnow engine s =
          map (\<lambda>r. if r \<in> set (filter (\<lambda>t. state t = ''downloading'') s)
                    then reconciled utcnow engine r else r) s"
    unfolding update_downloading_torrents_def get_torrents_by_state_def
    by (rule fold_update_downloading_torrent [OF assms]) (use d in auto)
  also have "\<dots> = map (\<lambda>r. if state r = ''downloading'' then reconciled utcnow engine r else r) s"
    by (rule map_cong [OF refl]) auto
  finally show ?thesis .
qed

lemma find_by_hash:
  "distinct (map hash s) \<Longrightarrow> t \<in> set s \<Longrightarrow> get_torrent_by_hash (hash t) s = Some t"
  unfolding get_torrent_by_hash_def
  by (induction s) (auto simp: image_iff)

lemma find_by_hash_map:
  assumes "\<And>r. hash (g r) = hash r"
  shows "get_torrent_by_hash h (map g s) = map_option g (get_torrent_by_hash h s)"
  unfolding get_torrent_by_hash_def using assms by (induction s) auto

lemma reconciled_lookup:
  assumes "distinct (map hash s)" and "t \<in> set s" and "state t = ''downloading''"
  shows "get_torrent_by_hash (hash t) (update_downloading_torrents utcnow engine s) =
           Some (reconciled utcnow engine t)"
proof -
  have "get_torrent_by_hash (hash t)
          (map (\<lambda>r. if state r = ''downloading'' then reconciled utcnow engine r else r) s) =
        map_option (\<lambda>r. if state r = ''downloading'' then reconciled utcnow engine r else r)
          (get_torrent_by_hash (hash t) s)"
    by (rule find_by_hash_map) simp
  then show ?thesis
    using assms by (simp add: update_downloading_torrents_rows find_by_hash)
qed

text \<open>
  C8. For a downloading item with an engine handle whose engine status is \<open>complete\<close>, in
  a store with unique hashes, the reconciliation pass leaves the item in state
  \<open>completed\<close> with progress 1, download speed 0, eta 0 and the completion timestamp set to
  the clock; \<open>downloaded\<close> and \<open>size_bytes\<close> take the lengths the engine reports.
\<close>

theorem reconciliation_complete:
  assumes "distinct (map hash s)" and "t \<in> set s" and "state t = ''downloading''"
    and "aria2_gid t = Some gid" and "gid \<noteq> []"
    and "engine gid = Inr (Some st)" and "status st = ''complete''"
  shows "\<exists>t'. get_torrent_by_hash (hash t) (update_downloading_torrents utcnow engine s) = Some t' \<and>
           t' = t\<lparr>progress := 1, dlspeed := 0, downloaded := completed_length st,
                   size_bytes := total_length st, eta := 0, state := ''completed'',
                   completion_on := Some (utcnow (hash t))\<rparr> \<and>
           state t' = ''completed'' \<and> progress t' = 1 \<and> dlspeed t' = 0 \<and> eta t' = 0 \<and>
           completion_on t' = Some (utcnow (hash t))"
  using reconciled_lookup [OF assms(1-3), of utcnow engine] assms(4-7)
  by (simp add: reconciled_def)

text \<open>A pass over a queued row and a downloading row whose transfer the engine reports complete.\<close>

theorem reconciliation_complete_witness:
  "distinct (map hash [queued_a, downloading_d]) \<and> downloading_d \<in> set [queued_a, downloading_d] \<and>
   state downloading_d = ''downloading'' \<and>
   aria2_gid downloading_d = Some ''2089b05ecca3d829'' \<and>
   get_torrent_by_hash ''d''
       (update_downloading_torrents fixed_clock complete_engine [queued_a, downloading_d])
     = Some (downloading_d\<lparr>progress := 1, dlspeed := 0, downloaded := 1000,
               size_bytes := 1000, eta := 0, state := ''completed'',
               completion_on := Some 42\<rparr>)"
  using reconciliation_complete [of "[queued_a, downloading_d]" downloading_d
          "''2089b05ecca3d829''" complete_engine
          "\<lparr>status = ''complete'', total_length = 1000, completed_length = 1000,
            download_speed = 0, status_progress = 100, status_error_message = None\<rparr>"
          fixed_clock]
  by (simp add: queued_a_def downloading_d_def example_torrent_def complete_engine_def
      fixed_clock_def)

text \<open>
  C9, as the code has it. For a downloading item with an engine handle whose engine status
  is \<open>error\<close>, in a store with unique hashes, the reconciliation pass puts the item in
  state \<open>error\<close> with the message the engine reports and sets its download speed to 0
  (\<^verbatim>\<open>mark_torrent_error\<close> writes \<^verbatim>\<open>dlspeed=0\<close>); progress, downloaded, size and eta keep their
  values, and no other column changes.
\<close>

theorem reconciliation_error:
  assumes "distinct (map hash s)" and "t \<in> set s" and "state t = ''downloading''"
    and "aria2_gid t = Some gid" and "gid \<noteq> []"
    and "engine gid = Inr (Some st)" and "status st = ''error''"
  shows "\<exists>t'. get_torrent_by_hash (hash t) (update_downloading_torrents utcnow engine s) = Some t' \<and>
           t' = t\<lparr>state := ''error'', error_message := status_error_message st, dlspeed := 0\<rparr> \<and>
           state t' = ''error'' \<and> error_message t' = status_error_message st \<and>
           dlspeed t' = 0 \<and>
           progress t' = progress t \<and> downloaded t' = downloaded t \<and>
           size_bytes t' = size_bytes t \<and> eta t' = eta t"
  using reconciled_lookup [OF assms(1-3), of utcnow engine] assms(4-7)
  by (simp add: reconciled_def)

text \<open>A pass over a queued row and a downloading row whose transfer the engine reports failed.\<close>

theorem reconciliation_error_witness:
  "distinct (map hash [queued_a, downloading_d]) \<and> downloading_d \<in> set [queued_a, downloading_d] \<and>
   state downloading_d = ''downloading'' \<and>
   aria2_gid downloading_d = Some ''2089b05ecca3d829'' \<and>
   get_torrent_by_hash ''d''
       (update_downloading_torrents fixed_clock failed_engine [queued_a, downloading_d])
     = Some (downloading_d\<lparr>state := ''error'', error_message := Some ''disk full'',
               dlspeed := 0\<rparr>)"
  using reconciliation_error [of "[queued_a, downloading_d]" downloading_d
          "''2089b05ecca3d829''" failed_engine
          "\<lparr>status = ''error'', total_length = 1000, completed_length = 300,
            download_speed = 0, status_progress = 30,
            status_error_message = Some ''disk full''\<rparr>"
          fixed_clock]
  by (simp add: queued_a_def downloading_d_def example_torrent_def failed_engine_def
      fixed_clock_def)

text \<open>
  C9 as stated fails on the download speed: a row downloading at 500 B/s has speed 0 after
  the pass that records the engine's error.
\<close>

theorem reconciliation_error_resets_speed:
  "dlspeed downloading_d = 500 \<and>
   map dlspeed (update_downloading_torrents fixed_clock failed_engine [downloading_d]) = [0]"
  by (simp add: update_downloading_torrents_def update_downloading_torrent_def
      get_torrents_by_state_def mark_torrent_error_def update_torrent_def
      downloading_d_def example_torrent_def failed_engine_def Let_def)

section \<open>Invariants of runs\<close>

text \<open>
  A property \<open>P\<close> of rows, together with the uniqueness of hashes, is kept by an operation
  when \<open>P\<close> holds of fresh rows and is kept by the changes that operation makes to a row.
\<close>

lemma update_torrent_preserves:
  assumes "distinct (map hash s)" and "\<forall>r \<in> set s. P r"
    and "\<And>r. hash (f r) = hash r"
    and "\<And>r. r \<in> set s \<Longrightarrow> hash r = h \<Longrightarrow> P (f r)"
  shows "distinct (map hash (update_torrent h f s)) \<and> (\<forall>r \<in> set (update_torrent h f s). P r)"
proof
  show "distinct (map hash (update_torrent h f s))"
    using assms(1) update_torrent_hashes [of f h s] assms(3) by simp
  show "\<forall>r \<in> set (update_torrent h f s). P r"
    using assms(2,4) by (auto simp: update_torrent_def)
qed

lemma get_torrent_by_hash_None: "get_torrent_by_hash h s = None \<longleftrightarrow> h \<notin> set (map hash s)"
  unfolding get_torrent_by_hash_def by (induction s) auto

lemma get_torrent_by_hash_SomeD:
  "get_torrent_by_hash h s = Some t \<Longrightarrow> t \<in> set s \<and> hash t = h"
  unfolding get_torrent_by_hash_def by (induction s) (auto split: if_splits)

lemma create_torrent_preserves:
  assumes "\<And>r. state r = ''queued'' \<Longrightarrow> error_message r = None \<Longrightarrow> P r"
    and "distinct (map hash s)" and "\<forall>r \<in> set s. P r"
    and "create_torrent cfg h nm uri cat sp now s = Inr s'"
  shows "distinct (map hash s') \<and> (\<forall>r \<in> set s'. P r)"
  using assms(2-4) assms(1)
  by (auto simp: create_torrent_def Let_def split: if_splits)

lemma add_all_preserves:
  assumes "\<And>r. state r = ''queued'' \<Longrightarrow> error_message r = None \<Longrightarrow> P r"
    and "distinct (map hash s)" and "\<forall>r \<in> set s. P r"
    and "add_all cfg p cat sp utcnow uris s = (e, s')"
  shows "distinct (map hash s') \<and> (\<forall>r \<in> set s'. P r)"
  using assms(2-4)
proof (induction uris arbitrary: s)
  case Nil
  then show ?case by simp
next
  case (Cons u uris)
  show ?case
  proof (cases "extract_hash_from_magnet p u")
    case (Inl x)
    with Cons.prems show ?thesis by simp
  next
    case (Inr h)
    show ?thesis
    proof (cases "get_torrent_by_hash h s")
      case (Some existing)
      with Inr Cons.prems have "add_all cfg p cat sp utcnow uris s = (e, s')" by simp
      from Cons.IH [OF Cons.prems(1,2) this] show ?thesis .
    next
      case None
      let ?sp = "case sp of None \<Rightarrow> download_path cfg @ ''/complete''
                 | Some d \<Rightarrow> if d = [] then download_path cfg @ ''/complete'' else d"
      show ?thesis
      proof (cases "create_torrent cfg h (extract_name_from_magnet p u) u cat (Some ?sp)
                      (utcnow u) s")
        case (Inl x)
        with Inr None Cons.prems show ?thesis by (simp add: Let_def)
      next
        case (Inr s1)
        have inv1: "distinct (map hash s1) \<and> (\<forall>r \<in> set s1. P r)"
          using create_torrent_preserves [OF assms(1) Cons.prems(1,2) Inr] by simp
        have "add_all cfg p cat sp utcnow uris s1 = (e, s')"
          using Inr None \<open>extract_hash_from_magnet p u = Inr h\<close> Cons.prems(3)
          by (simp add: Let_def)
        from Cons.IH [OF conjunct1 [OF inv1] conjunct2 [OF inv1] this] show ?thesis .
      qed
    qed
  qed
qed

lemma update_torrent_twice:
  assumes "\<And>r. hash (f r) = hash r"
  shows "update_torrent h g (update_torrent h f s) = update_torrent h (\<lambda>r. g (f r)) s"
  using assms by (induction s) (simp_all add: update_torrent_def)

lemma mark_error_shape:
  "\<exists>f. mark_torrent_error h m s = update_torrent h f s \<and> (\<forall>r. start_change r (f r))"
  unfolding mark_torrent_error_def
  by (rule exI [of _ "\<lambda>t. t\<lparr>state := ''error'', error_message := m, dlspeed := 0\<rparr>"])
    (simp add: start_change_def)

lemma mark_error_after_upload_shape:
  "\<exists>f. mark_torrent_error h m
          (update_torrent h (\<lambda>t. t\<lparr>alldebrid_id := a, size_bytes := z\<rparr>) s) = update_torrent h f s \<and>
       (\<forall>r. start_change r (f r))"
  unfolding mark_torrent_error_def
  by (rule exI [of _ "\<lambda>t. t\<lparr>alldebrid_id := a, size_bytes := z, state := ''error'',
                           error_message := m, dlspeed := 0\<rparr>"])
    (simp add: start_change_def update_torrent_twice)

lemma downloading_after_upload_shape:
  "\<exists>f. update_torrent h (\<lambda>t. t\<lparr>state := ''downloading'', aria2_gid := g, download_link := l,
                                name := n, size_bytes := z'\<rparr>)
          (update_torrent h (\<lambda>t. t\<lparr>alldebrid_id := a, size_bytes := z\<rparr>) s) = update_torrent h f s \<and>
       (\<forall>r. start_change r (f r))"
  by (rule exI [of _ "\<lambda>t. t\<lparr>alldebrid_id := a, size_bytes := z, state := ''downloading'',
                           aria2_gid := g, download_link := l, name := n, size_bytes := z'\<rparr>"])
    (simp add: start_change_def update_torrent_twice)

lemma start_torrent_download_shape:
  assumes "start_torrent_download env s t = Some s'"
  shows "\<exists>f. s' = update_torrent (hash t) f s \<and> (\<forall>r. start_change r (f r))"
proof (cases "upload_magnet env (magnet_uri t)")
  case (Inl e)
  with assms show ?thesis
    using mark_error_shape [of "hash t" "Some (str_of e)" s]
    by (simp add: start_torrent_download_def)
next
  case (Inr up)
  let ?s1 = "update_torrent (hash t)
               (\<lambda>t. t\<lparr>alldebrid_id := Some (upload_id up), size_bytes := upload_size up\<rparr>) s"
  have err: "\<exists>f. mark_torrent_error (hash t) m ?s1 = update_torrent (hash t) f s \<and>
               (\<forall>r. start_change r (f r))" for m
    by (rule mark_error_after_upload_shape)
  have ok: "\<exists>f. update_torrent (hash t)
                  (\<lambda>t. t\<lparr>state := ''downloading'', aria2_gid := g, download_link := l,
                          name := n, size_bytes := z'\<rparr>) ?s1 = update_torrent (hash t) f s \<and>
               (\<forall>r. start_change r (f r))" for g l n z'
    by (rule downloading_after_upload_shape)
  from assms Inr consider
      m where "s' = mark_torrent_error (hash t) m ?s1"
    | g l n z' where "s' = update_torrent (hash t)
                  (\<lambda>t. t\<lparr>state := ''downloading'', aria2_gid := g, download_link := l,
                          name := n, size_bytes := z'\<rparr>) ?s1"
    by (simp add: start_torrent_download_def Let_def
        split: sum.splits option.splits exn.splits list.splits if_splits) blast+
  then show ?thesis
  proof cases
    case 1
    then show ?thesis using err [of m] by simp
  next
    case 2
    then show ?thesis using ok [where g = g and l = l and n = n and z' = z'] by simp
  qed
qed

lemma process_queued_torrents_preserves:
  assumes start: "\<And>r r'. P r \<Longrightarrow> state r = ''queued'' \<Longrightarrow> start_change r r' \<Longrightarrow> P r'"
    and d: "distinct (map hash s)" and inv: "\<forall>r \<in> set s. P r"
    and step: "process_queued_torrents cfg storage_type env s = Some s'"
  shows "distinct (map hash s') \<and> (\<forall>r \<in> set s'. P r)"
proof (cases "get_torrents_by_state ''queued'' s")
  case Nil
  with step d inv show ?thesis by (simp add: process_queued_torrents_def)
next
  case (Cons t rest)
  then have "t \<in> set (get_torrents_by_state ''queued'' s)" by simp
  then have t: "t \<in> set s" and q: "state t = ''queued''"
    by (simp_all add: get_torrents_by_state_def)
  show ?thesis
  proof (cases "can_start_download cfg storage_type (get_torrents_by_state ''downloading'' s)")
    case False
    with Cons step d inv show ?thesis by (simp add: process_queued_torrents_def)
  next
    case True
    with Cons step have "start_torrent_download env s t = Some s'"
      by (simp add: process_queued_torrents_def)
    then obtain f where s': "s' = update_torrent (hash t) f s" and f: "\<forall>r. start_change r (f r)"
      using start_torrent_download_shape by blast
    have keeps: "hash (f r) = hash r" for r
      using f by (auto simp: start_change_def)
    have "P (f r)" if "r \<in> set s" and "hash r = hash t" for r
    proof -
      have "r = t" using same_hash_same_row [OF d that(1) t that(2)] .
      then show ?thesis using start [of t "f t"] inv t q f by simp
    qed
    then show ?thesis
      unfolding s' using update_torrent_preserves [OF d inv keeps] by blast
  qed
qed

lemma update_downloading_torrents_preserves:
  assumes recon: "\<And>r. P r \<Longrightarrow> state r = ''downloading'' \<Longrightarrow> P (reconciled utcnow engine r)"
    and d: "distinct (map hash s)" and inv: "\<forall>r \<in> set s. P r"
  shows "distinct (map hash (update_downloading_torrents utcnow engine s)) \<and>
         (\<forall>r \<in> set (update_downloading_torrents utcnow engine s). P r)"
proof -
  let ?g = "\<lambda>r. if state r = ''downloading'' then reconciled utcnow engine r else r"
  have eq: "update_downloading_torrents utcnow engine s = map ?g s"
    using update_downloading_torrents_rows [OF d] .
  have "map hash (map ?g s) = map hash s" by (induction s) auto
  then have "distinct (map hash (map ?g s))" using d by metis
  moreover have "\<forall>r \<in> set (map ?g s). P r" using inv recon by auto
  ultimately show ?thesis unfolding eq by blast
qed

lemma pause_torrents_preserves:
  assumes pause: "\<And>r. P r \<Longrightarrow> P (r\<lparr>state := ''paused''\<rparr>)"
    and d: "distinct (map hash s)" and inv: "\<forall>r \<in> set s. P r"
  shows "distinct (map hash (pause_torrents hashes s)) \<and>
         (\<forall>r \<in> set (pause_torrents hashes s). P r)"
proof -
  have "distinct (map hash (fold (\<lambda>h. update_torrent h (\<lambda>t. t\<lparr>state := ''paused''\<rparr>)) hs s)) \<and>
        (\<forall>r \<in> set (fold (\<lambda>h. update_torrent h (\<lambda>t. t\<lparr>state := ''paused''\<rparr>)) hs s). P r)" for hs
    using d inv
  proof (induction hs arbitrary: s)
    case Nil
    then show ?case by simp
  next
    case (Cons h hs)
    have st: "distinct (map hash (update_torrent h (\<lambda>t. t\<lparr>state := ''paused''\<rparr>) s)) \<and>
          (\<forall>r \<in> set (update_torrent h (\<lambda>t. t\<lparr>state := ''paused''\<rparr>) s). P r)"
      by (rule update_torrent_preserves [OF Cons.prems]) (use pause Cons.prems in auto)
    from Cons.IH [OF conjunct1 [OF st] conjunct2 [OF st]] show ?case by simp
  qed
  then show ?thesis by (simp add: pause_torrents_def)
qed

lemma resume_torrent_preserves:
  assumes resume: "\<And>r. P r \<Longrightarrow> state r = ''paused'' \<Longrightarrow> P (r\<lparr>state := ''queued''\<rparr>)"
    and d: "distinct (map hash s)" and inv: "\<forall>r \<in> set s. P r"
  shows "distinct (map hash (resume_torrent h s)) \<and> (\<forall>r \<in> set (resume_torrent h s). P r)"
proof (cases "get_torrent_by_hash h s")
  case None
  then show ?thesis using d inv by (simp add: resume_torrent_def)
next
  case (Some t)
  then have t: "t \<in> set s" and h: "hash t = h" using get_torrent_by_hash_SomeD by auto
  show ?thesis
  proof (cases "state t = ''paused''")
    case False
    with Some show ?thesis using d inv by (simp add: resume_torrent_def)
  next
    case True
    have "P (r\<lparr>state := ''queued''\<rparr>)" if "r \<in> set s" and "hash r = h" for r
    proof -
      have "r = t" using same_hash_same_row [OF d that(1) t] that(2) h by simp
      then show ?thesis using resume [of t] inv t True by simp
    qed
    then have "distinct (map hash (update_torrent h (\<lambda>t. t\<lparr>state := ''queued''\<rparr>) s)) \<and>
          (\<forall>r \<in> set (update_torrent h (\<lambda>t. t\<lparr>state := ''queued''\<rparr>) s). P r)"
      by (intro update_torrent_preserves [OF d inv]) auto
    with Some True show ?thesis by (simp add: resume_torrent_def)
  qed
qed

lemma resume_torrents_preserves:
  assumes resume: "\<And>r. P r \<Longrightarrow> state r = ''paused'' \<Longrightarrow> P (r\<lparr>state := ''queued''\<rparr>)"
    and d: "distinct (map hash s)" and inv: "\<forall>r \<in> set s. P r"
  shows "distinct (map hash (resume_torrents hashes s)) \<and>
         (\<forall>r \<in> set (resume_torrents hashes s). P r)"
proof -
  have "distinct (map hash (fold resume_torrent hs s)) \<and>
        (\<forall>r \<in> set (fold resume_torrent hs s). P r)" for hs
    using d inv
  proof (induction hs arbitrary: s)
    case Nil
    then show ?case by simp
  next
    case (Cons h hs)
    have st: "distinct (map hash (resume_torrent h s)) \<and> (\<forall>r \<in> set (resume_torrent h s). P r)"
      by (rule resume_torrent_preserves [of P, OF resume Cons.prems])
    from Cons.IH [OF conjunct1 [OF st] conjunct2 [OF st]] show ?case by simp
  qed
  then show ?thesis by (simp add: resume_torrents_def)
qed

lemma delete_torrents_preserves:
  assumes d: "distinct (map hash s)" and inv: "\<forall>r \<in> set s. P r"
  shows "distinct (map hash (delete_torrents hashes s)) \<and>
         (\<forall>r \<in> set (delete_torrents hashes s). P r)"
proof -
  let ?del = "\<lambda>h s'. case get_torrent_by_hash h s' of None \<Rightarrow> s'
                       | Some torrent \<Rightarrow> delete_torrent h s'"
  have "distinct (map hash (fold ?del hs s)) \<and> (\<forall>r \<in> set (fold ?del hs s). P r)" for hs
    using d inv
  proof (induction hs arbitrary: s)
    case Nil
    then show ?case by simp
  next
    case (Cons h hs)
    have st: "distinct (map hash (?del h s)) \<and> (\<forall>r \<in> set (?del h s). P r)"
      using Cons.prems
      by (auto simp: delete_torrent_def distinct_map_filter split: option.splits)
    from Cons.IH [OF conjunct1 [OF st] conjunct2 [OF st]] show ?case by simp
  qed
  then show ?thesis by (simp add: delete_torrents_def)
qed

lemma apply_operation_preserves:
  assumes new: "\<And>r. state r = ''queued'' \<Longrightarrow> error_message r = None \<Longrightarrow> P r"
    and start: "\<And>r r'. P r \<Longrightarrow> state r = ''queued'' \<Longrightarrow> start_change r r' \<Longrightarrow> P r'"
    and recon: "\<And>r utcnow engine. P r \<Longrightarrow> state r = ''downloading''
                  \<Longrightarrow> P (reconciled utcnow engine r)"
    and resume: "\<And>r. P r \<Longrightarrow> state r = ''paused'' \<Longrightarrow> P (r\<lparr>state := ''queued''\<rparr>)"
    and pause: "\<And>r. is_pause x \<Longrightarrow> P r \<Longrightarrow> P (r\<lparr>state := ''paused''\<rparr>)"
    and completion: "\<And>r now. is_completion x \<Longrightarrow> P r
                  \<Longrightarrow> P (r\<lparr>state := ''completed'', progress := 1, completion_on := Some now,
                          dlspeed := 0\<rparr>)"
    and d: "distinct (map hash s)" and inv: "\<forall>r \<in> set s. P r"
    and step: "apply_operation cfg x s = Some s'"
  shows "distinct (map hash s') \<and> (\<forall>r \<in> set s'. P r)"
proof (cases x)
  case (Submit p urls cat savepath utcnow)
  obtain e s1 where a: "add_all cfg p cat savepath utcnow (magnet_uris urls) s = (e, s1)"
    by (cases "add_all cfg p cat savepath utcnow (magnet_uris urls) s") auto
  then have "s' = s1" using step Submit by (auto simp: add_torrent_def split: option.splits)
  then show ?thesis using add_all_preserves [of P, OF new d inv a] by simp
next
  case (Admission storage_type env)
  then show ?thesis
    using process_queued_torrents_preserves [of P, OF start d inv] step by simp
next
  case (Reconciliation utcnow engine)
  then show ?thesis
    using update_downloading_torrents_preserves [of P, OF recon d inv] step by auto
next
  case (Completion now h)
  have "distinct (map hash (mark_torrent_completed now h s)) \<and>
        (\<forall>r \<in> set (mark_torrent_completed now h s). P r)"
    unfolding mark_torrent_completed_def
    by (rule update_torrent_preserves [OF d inv]) (use completion Completion inv in auto)
  then show ?thesis using step Completion by auto
next
  case (Pause hashes)
  then have "\<And>r. P r \<Longrightarrow> P (r\<lparr>state := ''paused''\<rparr>)" using pause by simp
  from pause_torrents_preserves [of P, OF this d inv] show ?thesis using step Pause by auto
next
  case (Resume hashes)
  then show ?thesis using resume_torrents_preserves [of P, OF resume d inv] step by auto
next
  case (Delete hashes)
  then show ?thesis using delete_torrents_preserves [OF d inv] step by auto
qed

lemma run_preserves:
  assumes new: "\<And>r. state r = ''queued'' \<Longrightarrow> error_message r = None \<Longrightarrow> P r"
    and start: "\<And>r r'. P r \<Longrightarrow> state r = ''queued'' \<Longrightarrow> start_change r r' \<Longrightarrow> P r'"
    and recon: "\<And>r utcnow engine. P r \<Longrightarrow> state r = ''downloading''
                  \<Longrightarrow> P (reconciled utcnow engine r)"
    and resume: "\<And>r. P r \<Longrightarrow> state r = ''paused'' \<Longrightarrow> P (r\<lparr>state := ''queued''\<rparr>)"
    and pause: "\<And>r x. x \<in> set xs \<Longrightarrow> is_pause x \<Longrightarrow> P r \<Longrightarrow> P (r\<lparr>state := ''paused''\<rparr>)"
    and completion: "\<And>r now x. x \<in> set xs \<Longrightarrow> is_completion x \<Longrightarrow> P r
                  \<Longrightarrow> P (r\<lparr>state := ''completed'', progress := 1, completion_on := Some now,
                          dlspeed := 0\<rparr>)"
    and d: "distinct (map hash s)" and inv: "\<forall>r \<in> set s. P r"
    and steps: "run cfg xs s = Some s'"
  shows "distinct (map hash s') \<and> (\<forall>r \<in> set s'. P r)"
  using pause completion d inv steps
proof (induction xs arbitrary: s)
  case Nil
  then show ?case by simp
next
  case (Cons x xs)
  from Cons.prems(5) obtain s1 where s1: "apply_operation cfg x s = Some s1"
    and rest: "run cfg xs s1 = Some s'"
    by (auto split: option.splits)
  have p: "P (r\<lparr>state := ''paused''\<rparr>)" if "is_pause x" and "P r" for r
    using Cons.prems(1) [of x r] that by simp
  have c: "P (r\<lparr>state := ''completed'', progress := 1, completion_on := Some now, dlspeed := 0\<rparr>)"
    if "is_completion x" and "P r" for r now
    using Cons.prems(2) [of x r now] that by simp
  have inv1: "distinct (map hash s1) \<and> (\<forall>r \<in> set s1. P r)"
    by (rule apply_operation_preserves [of P x, OF new start recon resume p c Cons.prems(3,4) s1])
  have p': "P (r\<lparr>state := ''paused''\<rparr>)" if "y \<in> set xs" and "is_pause y" and "P r" for r y
    using Cons.prems(1) [of y r] that by simp
  have c': "P (r\<lparr>state := ''completed'', progress := 1, completion_on := Some now, dlspeed := 0\<rparr>)"
    if "y \<in> set xs" and "is_completion y" and "P r" for r now y
    using Cons.prems(2) [of y r now] that by simp
  show ?case
    by (rule Cons.IH [OF p' c' conjunct1 [OF inv1] conjunct2 [OF inv1] rest])
qed

lemma process_queued_torrents_returns:
  "\<exists>s'. process_queued_torrents cfg storage_type env s = Some s'"
  using start_torrent_download_returns
  by (simp add: process_queued_torrents_def split: list.splits)

lemma apply_operation_returns: "\<exists>s'. apply_operation cfg x s = Some s'"
  using process_queued_torrents_returns by (cases x) simp_all

text \<open>Every run returns a store: the hypotheses of the two invariants below can be met.\<close>

lemma run_returns: "\<exists>s'. run cfg xs s = Some s'"
proof (induction xs arbitrary: s)
  case Nil
  then show ?case by simp
next
  case (Cons x xs)
  obtain s1 where "apply_operation cfg x s = Some s1"
    using apply_operation_returns by blast
  with Cons.IH [of s1] show ?case by simp
qed

lemma magnet_uris_a: "magnet_uris ''a'' = [''a'']"
  by (simp add: magnet_uris_def strip_def is_space_def)

lemma wait_ready:
  "wait_for_magnet_ready (get_magnet_status ready_services 7) 7 300 5 =
     Some (Inr \<lparr>statusCode = 4, links = [''https://alldebrid.com/f/1'']\<rparr>)"
  unfolding wait_for_magnet_ready_def
  by (subst wait_loop.simps) (simp add: ready_services_def)

lemma run_submit_a: "apply_operation default_settings submit_a [] =
    Some [(example_torrent ''a'' ''queued'' 0 42)\<lparr>magnet_uri := Some ''a''\<rparr>]"
  by (simp add: submit_a_def add_torrent_def magnet_uris_a example_parser_def
      get_torrent_by_hash_def create_torrent_def default_settings_def fixed_clock_def
      example_torrent_def)

lemma run_admission_ready:
  "apply_operation default_settings (Admission ''ssd'' ready_services)
     [(example_torrent ''a'' ''queued'' 0 42)\<lparr>magnet_uri := Some ''a''\<rparr>] = Some [started_a]"
  using wait_ready
  by (simp add: process_queued_torrents_def get_torrents_by_state_def can_start_download_def
      start_torrent_download_def update_torrent_def example_torrent_def started_a_def
      ready_services_def)

lemma run_admission_refused:
  "apply_operation default_settings (Admission ''ssd'' refusing_services)
     [(example_torrent ''a'' ''queued'' 0 42)\<lparr>magnet_uri := Some ''a''\<rparr>] = Some [refused_a]"
  by (simp add: process_queued_torrents_def get_torrents_by_state_def can_start_download_def
      start_torrent_download_def mark_torrent_error_def update_torrent_def example_torrent_def
      refused_a_def refusing_services_def)

lemma run_admission_silent:
  "apply_operation default_settings (Admission ''ssd'' silent_services)
     [(example_torrent ''a'' ''queued'' 0 42)\<lparr>magnet_uri := Some ''a''\<rparr>] =
   Some [refused_a\<lparr>error_message := Some []\<rparr>]"
  by (simp add: process_queued_torrents_def get_torrents_by_state_def can_start_download_def
      start_torrent_download_def mark_torrent_error_def update_torrent_def example_torrent_def
      refused_a_def silent_services_def)

lemma run_download:
  "run default_settings download_run [] =
     Some [started_a\<lparr>progress := 1, dlspeed := 0, downloaded := 1000, size_bytes := 1000,
                    eta := 0, state := ''completed'', completion_on := Some 42\<rparr>]"
proof -
  have "apply_operation default_settings (Reconciliation fixed_clock complete_engine) [started_a]
      = Some [started_a\<lparr>progress := 1, dlspeed := 0, downloaded := 1000, size_bytes := 1000,
                    eta := 0, state := ''completed'', completion_on := Some 42\<rparr>]"
    by (simp add: update_downloading_torrents_def update_downloading_torrent_def
        get_torrents_by_state_def update_torrent_def started_a_def example_torrent_def
        complete_engine_def fixed_clock_def Let_def)
  then show ?thesis
    using run_submit_a run_admission_ready by (simp add: download_run_def)
qed

lemma run_marked:
  "run default_settings marked_run [] =
     Some [started_a\<lparr>state := ''completed'', progress := 1, completion_on := Some 50,
                    dlspeed := 0\<rparr>]"
proof -
  have "apply_operation default_settings (Completion 50 ''a'') [started_a]
      = Some [started_a\<lparr>state := ''completed'', progress := 1, completion_on := Some 50,
                    dlspeed := 0\<rparr>]"
    by (simp add: mark_torrent_completed_def update_torrent_def started_a_def
        example_torrent_def)
  then show ?thesis
    using run_submit_a run_admission_ready by (simp add: marked_run_def)
qed

lemma run_refused: "run default_settings refused_run [] = Some [refused_a]"
  using run_submit_a run_admission_refused by (simp add: refused_run_def)

lemma run_silent:
  "run default_settings silent_run [] = Some [refused_a\<lparr>error_message := Some []\<rparr>]"
  using run_submit_a run_admission_silent by (simp add: silent_run_def)

text \<open>
  C4, as the code has it. In every store reached from the empty store by submissions,
  admission passes, reconciliation passes, \<^verbatim>\<open>mark_torrent_completed\<close>, pauses, resumes and
  deletions, an item in state \<open>completed\<close> has progress 1. (Nothing makes \<open>downloaded\<close> equal
  to \<open>size_bytes\<close>: the reconciliation pass stores the two lengths the engine reports, and
  \<^verbatim>\<open>mark_torrent_completed\<close> leaves both columns as they are.)
\<close>

theorem completed_has_full_progress:
  assumes "run cfg xs [] = Some s" and "t \<in> set s" and "state t = ''completed''"
  shows "progress t = 1"
proof -
  let ?P = "\<lambda>r. state r = ''completed'' \<longrightarrow> progress r = 1"
  have "distinct (map hash s) \<and> (\<forall>r \<in> set s. ?P r)"
  proof (rule run_preserves [of ?P xs "[]" cfg s, OF _ _ _ _ _ _ _ _ assms(1)])
    show "?P (reconciled utcnow engine r)" if "?P r" and "state r = ''downloading''"
      for r utcnow engine
      using that by (simp add: reconciled_def split: option.splits sum.splits)
  qed (auto simp: start_change_def)
  with assms(2,3) show ?thesis by blast
qed

text \<open>A submission, its admission and a reconciliation pass that finds the transfer complete.\<close>

theorem completed_has_full_progress_witness:
  "run default_settings download_run [] =
     Some [started_a\<lparr>progress := 1, dlspeed := 0, downloaded := 1000, size_bytes := 1000,
                    eta := 0, state := ''completed'', completion_on := Some 42\<rparr>] \<and>
   state (started_a\<lparr>progress := 1, dlspeed := 0, downloaded := 1000, size_bytes := 1000,
                    eta := 0, state := ''completed'', completion_on := Some 42\<rparr>) = ''completed'' \<and>
   progress (started_a\<lparr>progress := 1, dlspeed := 0, downloaded := 1000, size_bytes := 1000,
                    eta := 0, state := ''completed'', completion_on := Some 42\<rparr>) = 1"
  using completed_has_full_progress [OF run_download,
          of "started_a\<lparr>progress := 1, dlspeed := 0, downloaded := 1000, size_bytes := 1000,
                    eta := 0, state := ''completed'', completion_on := Some 42\<rparr>"]
    run_download
  by simp

text \<open>
  C4 as stated fails on \<open>downloaded = size\<close>: after a submission and its admission,
  \<^verbatim>\<open>mark_torrent_completed\<close> leaves the item completed with 0 of 100 bytes downloaded.
\<close>

theorem completed_without_full_download:
  "map state (the (run default_settings marked_run [])) = [''completed''] \<and>
   map downloaded (the (run default_settings marked_run [])) = [0] \<and>
   map size_bytes (the (run default_settings marked_run [])) = [100]"
  by (simp add: run_marked started_a_def example_torrent_def)

lemma fold_pause_rows:
  "fold (\<lambda>h. update_torrent h (\<lambda>t. t\<lparr>state := ''paused''\<rparr>)) hs s =
     map (\<lambda>r. if hash r \<in> set hs then r\<lparr>state := ''paused''\<rparr> else r) s"
proof (induction hs arbitrary: s)
  case Nil
  then show ?case by simp
next
  case (Cons h hs)
  have "map (\<lambda>r. if hash r \<in> set hs then r\<lparr>state := ''paused''\<rparr> else r)
          (update_torrent h (\<lambda>t. t\<lparr>state := ''paused''\<rparr>) s) =
        map (\<lambda>r. if hash r \<in> set (h # hs) then r\<lparr>state := ''paused''\<rparr> else r) s"
    by (induction s) (simp_all add: update_torrent_def)
  with Cons.IH show ?case by simp
qed

lemma pause_torrents_rows:
  "pause_torrents hashes s =
     map (\<lambda>r. if hash r \<in> set (split_on (CHR ''|'') hashes) then r\<lparr>state := ''paused''\<rparr> else r) s"
  by (simp add: pause_torrents_def fold_pause_rows)

lemma pause_in_scope_keeps_message_invariant:
  assumes d: "distinct (map hash s)"
    and inv: "\<forall>r \<in> set s. error_message r \<noteq> None \<longrightarrow> state r = ''error''"
    and scope: "pause_in_scope (Pause hashes) s"
  shows "distinct (map hash (pause_torrents hashes s)) \<and>
         (\<forall>r \<in> set (pause_torrents hashes s). error_message r \<noteq> None \<longrightarrow> state r = ''error'')"
proof
  let ?g = "\<lambda>r. if hash r \<in> set (split_on (CHR ''|'') hashes) then r\<lparr>state := ''paused''\<rparr> else r"
  have "map hash (map ?g s) = map hash s" by (induction s) auto
  then show "distinct (map hash (pause_torrents hashes s))"
    unfolding pause_torrents_rows using d by metis
  show "\<forall>r \<in> set (pause_torrents hashes s). error_message r \<noteq> None \<longrightarrow> state r = ''error''"
    unfolding pause_torrents_rows using inv scope by (auto simp: list_all_iff)
qed

lemma apply_operation_keeps_message_invariant:
  assumes d: "distinct (map hash s)"
    and inv: "\<forall>r \<in> set s. error_message r \<noteq> None \<longrightarrow> state r = ''error''"
    and scope: "pause_in_scope x s" and nc: "\<not> is_completion x"
    and step: "apply_operation cfg x s = Some s'"
  shows "distinct (map hash s') \<and>
         (\<forall>r \<in> set s'. error_message r \<noteq> None \<longrightarrow> state r = ''error'')"
proof (cases "is_pause x")
  case True
  then obtain hashes where x: "x = Pause hashes" by (cases x) auto
  have s': "s' = pause_torrents hashes s" using step unfolding x by simp
  have sc: "pause_in_scope (Pause hashes) s" using scope unfolding x .
  show ?thesis
    unfolding s' by (rule pause_in_scope_keeps_message_invariant [OF d inv sc])
next
  case False
  let ?P = "\<lambda>r. error_message r \<noteq> None \<longrightarrow> state r = ''error''"
  have new: "?P r" if "state r = ''queued''" and "error_message r = None" for r
    using that by simp
  have start: "?P r'" if "?P r" and "state r = ''queued''" and "start_change r r'" for r r'
    using that by (auto simp: start_change_def)
  have recon: "?P (reconciled utcnow engine r)" if "?P r" and "state r = ''downloading''"
    for r utcnow engine
    using that by (simp add: reconciled_def split: option.splits sum.splits)
  have resume: "?P (r\<lparr>state := ''queued''\<rparr>)" if "?P r" and "state r = ''paused''" for r
    using that by simp
  have pause: "?P (r\<lparr>state := ''paused''\<rparr>)" if "is_pause x" and "?P r" for r
    using that False by simp
  have completion: "?P (r\<lparr>state := ''completed'', progress := 1, completion_on := Some now,
      dlspeed := 0\<rparr>)" if "is_completion x" and "?P r" for r now
    using that nc by simp
  show ?thesis
    by (rule apply_operation_preserves [of ?P x s cfg s',
          OF new start recon resume pause completion d inv step])
qed

lemma run_keeps_message_invariant:
  assumes "distinct (map hash s)"
    and "\<forall>r \<in> set s. error_message r \<noteq> None \<longrightarrow> state r = ''error''"
    and "pauses_in_scope cfg xs s" and "\<forall>x \<in> set xs. \<not> is_completion x"
    and "run cfg xs s = Some s'"
  shows "distinct (map hash s') \<and>
         (\<forall>r \<in> set s'. error_message r \<noteq> None \<longrightarrow> state r = ''error'')"
  using assms
proof (induction xs arbitrary: s)
  case Nil
  then show ?case by simp
next
  case (Cons x xs)
  from Cons.prems(5) obtain s1 where s1: "apply_operation cfg x s = Some s1"
    and rest: "run cfg xs s1 = Some s'"
    by (auto split: option.splits)
  have scope: "pause_in_scope x s" and scope': "pauses_in_scope cfg xs s1"
    using Cons.prems(3) s1 by simp_all
  have nc: "\<not> is_completion x" and nc': "\<forall>y \<in> set xs. \<not> is_completion y"
    using Cons.prems(4) by simp_all
  have inv1: "distinct (map hash s1) \<and>
      (\<forall>r \<in> set s1. error_message r \<noteq> None \<longrightarrow> state r = ''error'')"
    by (rule apply_operation_keeps_message_invariant [OF Cons.prems(1,2) scope nc s1])
  show ?case
    by (rule Cons.IH [OF conjunct1 [OF inv1] conjunct2 [OF inv1] scope' nc' rest])
qed

lemma run_pause_a:
  "apply_operation default_settings (Pause ''a'')
     [(example_torrent ''a'' ''queued'' 0 42)\<lparr>magnet_uri := Some ''a''\<rparr>] =
   Some [(example_torrent ''a'' ''paused'' 0 42)\<lparr>magnet_uri := Some ''a''\<rparr>]"
  by (simp add: pause_torrents_def update_torrent_def example_torrent_def)

lemma run_resume_a:
  "apply_operation default_settings (Resume ''a'')
     [(example_torrent ''a'' ''paused'' 0 42)\<lparr>magnet_uri := Some ''a''\<rparr>] =
   Some [(example_torrent ''a'' ''queued'' 0 42)\<lparr>magnet_uri := Some ''a''\<rparr>]"
  by (simp add: resume_torrents_def resume_torrent_def get_torrent_by_hash_def
      update_torrent_def example_torrent_def)

lemma run_pause_resume: "run default_settings pause_resume_run [] = Some [refused_a]"
  using run_submit_a run_pause_a run_resume_a run_admission_refused
  by (simp add: pause_resume_run_def)

lemma pause_resume_run_in_scope: "pauses_in_scope default_settings pause_resume_run []"
proof -
  have "pause_in_scope (Pause ''a'')
          [(example_torrent ''a'' ''queued'' 0 42)\<lparr>magnet_uri := Some ''a''\<rparr>]"
    by (simp add: example_torrent_def)
  then show ?thesis
    using run_submit_a run_pause_a run_resume_a run_admission_refused
    by (simp add: pause_resume_run_def submit_a_def)
qed

text \<open>
  C5, as the code has it. In every store reached from the empty store by submissions,
  admission passes (pipeline failures included), reconciliation passes, pauses of items in
  state \<open>queued\<close> or \<open>downloading\<close>, resumes and deletions, an item whose error message
  is set is in state \<open>error\<close>. A pause of an item in another state is left out, and so are
  runs with \<^verbatim>\<open>mark_torrent_completed\<close>, which no path of the program calls. The message
  of an item in state \<open>error\<close> is the text of the exception or the engine's message,
  whatever it is.
\<close>

theorem error_message_only_in_error:
  assumes "run cfg xs [] = Some s"
    and "pauses_in_scope cfg xs []"
    and "\<forall>x \<in> set xs. \<not> is_completion x"
    and "t \<in> set s" and "error_message t \<noteq> None"
  shows "state t = ''error''"
  using run_keeps_message_invariant [of "[]" cfg xs s] assms by auto

text \<open>
  A submission that is paused while queued, resumed, and then admitted with a resolver
  that refuses the upload.
\<close>

theorem error_message_only_in_error_witness:
  "run default_settings pause_resume_run [] = Some [refused_a] \<and>
   pauses_in_scope default_settings pause_resume_run [] \<and>
   list_all (\<lambda>x. \<not> is_completion x) pause_resume_run \<and>
   error_message refused_a \<noteq> None \<and> state refused_a = ''error''"
proof -
  have ops: "\<forall>x \<in> set pause_resume_run. \<not> is_completion x"
    by (simp add: pause_resume_run_def submit_a_def)
  have msg: "error_message refused_a \<noteq> None" by (simp add: refused_a_def)
  show ?thesis
    using error_message_only_in_error [OF run_pause_resume pause_resume_run_in_scope ops _ msg]
      run_pause_resume pause_resume_run_in_scope ops msg
    by (simp add: list_all_iff)
qed

text \<open>
  C5 as stated fails on "non-empty": when the upload fails with an exception whose text is
  empty, the item is in state \<open>error\<close> and its message is the empty string.
\<close>

theorem error_with_empty_message:
  "map state (the (run default_settings silent_run [])) = [''error''] \<and>
   map error_message (the (run default_settings silent_run [])) = [Some []]"
  by (simp add: run_silent refused_a_def example_torrent_def)

section \<open>Pause and resume\<close>

text \<open>
  C6 at a completed item. \<^verbatim>\<open>pause_torrents\<close> writes \<open>paused\<close> into every row it is given,
  whatever its state, so a completed item becomes paused, and a resume then queues it
  again. \<^verbatim>\<open>resume_torrents\<close> checks the state before it writes.
\<close>

theorem pause_overwrites_completed:
  "state completed_e = ''completed'' \<and>
   pause_torrents ''e'' [completed_e] = [completed_e\<lparr>state := ''paused''\<rparr>] \<and>
   resume_torrents ''e'' [completed_e\<lparr>state := ''paused''\<rparr>] = [completed_e\<lparr>state := ''queued''\<rparr>]"
  by (simp add: pause_torrents_def resume_torrents_def resume_torrent_def
      get_torrent_by_hash_def update_torrent_def completed_e_def example_torrent_def)

section \<open>Submission\<close>

lemma add_all_present:
  assumes "\<forall>u \<in> set uris. \<exists>h. extract_hash_from_magnet p u = Inr h \<and> h \<in> set (map hash s)"
  shows "add_all cfg p cat savepath utcnow uris s = (None, s)"
  using assms
proof (induction uris)
  case Nil
  then show ?case by simp
next
  case (Cons u uris)
  then obtain h where h: "extract_hash_from_magnet p u = Inr h" and "h \<in> set (map hash s)"
    by auto
  then have "get_torrent_by_hash h s \<noteq> None" by (simp add: get_torrent_by_hash_None)
  then obtain t where "get_torrent_by_hash h s = Some t" by auto
  with h Cons show ?case by simp
qed

lemma create_torrent_hashes:
  "create_torrent cfg h nm uri cat sp now s = Inr s' \<Longrightarrow> set (map hash s') = insert h (set (map hash s))"
  by (auto simp: create_torrent_def Let_def split: if_splits)

lemma add_all_ok_present:
  assumes "add_all cfg p cat savepath utcnow uris s = (None, s')"
  shows "set (map hash s) \<subseteq> set (map hash s') \<and>
         (\<forall>u \<in> set uris. \<exists>h. extract_hash_from_magnet p u = Inr h \<and> h \<in> set (map hash s'))"
  using assms
proof (induction uris arbitrary: s)
  case Nil
  then show ?case by simp
next
  case (Cons u uris)
  from Cons.prems obtain h where h: "extract_hash_from_magnet p u = Inr h"
    by (cases "extract_hash_from_magnet p u") auto
  show ?case
  proof (cases "get_torrent_by_hash h s")
    case (Some existing)
    then have here: "h \<in> set (map hash s)"
      using get_torrent_by_hash_None [of h s] by auto
    from Some h Cons.prems have "add_all cfg p cat savepath utcnow uris s = (None, s')" by simp
    from Cons.IH [OF this] here h show ?thesis by auto
  next
    case None
    let ?sp = "case savepath of None \<Rightarrow> download_path cfg @ ''/complete''
               | Some d \<Rightarrow> if d = [] then download_path cfg @ ''/complete'' else d"
    from None h Cons.prems obtain s1 where
      c: "create_torrent cfg h (extract_name_from_magnet p u) u cat (Some ?sp) (utcnow u) s = Inr s1"
      and rest: "add_all cfg p cat savepath utcnow uris s1 = (None, s')"
      by (auto simp: Let_def split: sum.splits)
    from create_torrent_hashes [OF c] have "set (map hash s1) = insert h (set (map hash s))" .
    with Cons.IH [OF rest] h show ?thesis by auto
  qed
qed

lemma one_row_per_hash:
  "distinct (map hash s) \<Longrightarrow> h \<in> set (map hash s) \<Longrightarrow> length (filter (\<lambda>t. hash t = h) s) = 1"
proof (induction s)
  case Nil
  then show ?case by simp
next
  case (Cons r s)
  show ?case
  proof (cases "hash r = h")
    case True
    with Cons.prems have "filter (\<lambda>t. hash t = h) s = []"
      by (auto simp: filter_empty_conv image_iff)
    with True show ?thesis by simp
  next
    case False
    with Cons show ?thesis by auto
  qed
qed

text \<open>
  C10. If a submission succeeded, and the rows it left (by hash) are still in the store,
  whose hashes are unique, then submitting the same text again replies \<^verbatim>\<open>"Ok."\<close> and
  leaves the store as it is, and each submitted URI has exactly one row with its hash.
\<close>

theorem add_torrent_idempotent:
  assumes "add_torrent cfg p urls cat savepath utcnow s = (Inr ''Ok.'', s1)"
    and "set (map hash s1) \<subseteq> set (map hash s2)" and "distinct (map hash s2)"
  shows "add_torrent cfg p urls cat' savepath' utcnow' s2 = (Inr ''Ok.'', s2) \<and>
         (\<forall>u \<in> set (magnet_uris urls).
            \<exists>h. extract_hash_from_magnet p u = Inr h \<and>
                length (filter (\<lambda>t. hash t = h) s2) = 1)"
proof -
  from assms(1) have first: "add_all cfg p cat savepath utcnow (magnet_uris urls) s = (None, s1)"
    by (auto simp: add_torrent_def split: prod.splits option.splits)
  have present: "\<forall>u \<in> set (magnet_uris urls).
      \<exists>h. extract_hash_from_magnet p u = Inr h \<and> h \<in> set (map hash s2)"
    using add_all_ok_present [OF first] assms(2) by blast
  have "add_all cfg p cat' savepath' utcnow' (magnet_uris urls) s2 = (None, s2)"
    by (rule add_all_present [OF present])
  then have again: "add_torrent cfg p urls cat' savepath' utcnow' s2 = (Inr ''Ok.'', s2)"
    by (simp add: add_torrent_def)
  have one: "\<forall>u \<in> set (magnet_uris urls).
      \<exists>h. extract_hash_from_magnet p u = Inr h \<and> length (filter (\<lambda>t. hash t = h) s2) = 1"
    using present one_row_per_hash [OF assms(3)] by blast
  from again one show ?thesis by blast
qed

lemma add_a:
  "add_torrent default_settings example_parser ''a'' None None fixed_clock [] =
     (Inr ''Ok.'', [(example_torrent ''a'' ''queued'' 0 42)\<lparr>magnet_uri := Some ''a''\<rparr>])"
  by (simp add: add_torrent_def magnet_uris_a example_parser_def
      get_torrent_by_hash_def create_torrent_def default_settings_def fixed_clock_def
      example_torrent_def)

text \<open>One URI submitted twice, the second time with another category and save path.\<close>

theorem add_torrent_idempotent_witness:
  "add_torrent default_settings example_parser ''a'' None None fixed_clock [] =
     (Inr ''Ok.'', [(example_torrent ''a'' ''queued'' 0 42)\<lparr>magnet_uri := Some ''a''\<rparr>]) \<and>
   distinct (map hash [(example_torrent ''a'' ''queued'' 0 42)\<lparr>magnet_uri := Some ''a''\<rparr>]) \<and>
   add_torrent default_settings example_parser ''a'' (Some ''radarr'') (Some ''/data'') fixed_clock
       [(example_torrent ''a'' ''queued'' 0 42)\<lparr>magnet_uri := Some ''a''\<rparr>] =
     (Inr ''Ok.'', [(example_torrent ''a'' ''queued'' 0 42)\<lparr>magnet_uri := Some ''a''\<rparr>])"
  using add_torrent_idempotent [OF add_a,
          of "[(example_torrent ''a'' ''queued'' 0 42)\<lparr>magnet_uri := Some ''a''\<rparr>]"
             "Some ''radarr''" "Some ''/data''" fixed_clock]
    add_a
  by (simp add: example_torrent_def)

end
